theory Spec2Isabelle
  imports Complex_Main "HOL-Library.Monad_Syntax"
begin

section \<open>Terrain height field and capsule physics of main.cpp\<close>

text \<open>
  The program computes with C++ \<open>float\<close> and \<open>int\<close>. Two models of \<open>float\<close> are
  used. In the first, \<open>float\<close> arithmetic is exact arithmetic on the reals and a literal
  such as \<open>0.7f\<close> is the decimal it is written as: rounding, infinities and NaN are not
  represented. It carries the properties that are about which statements run, which
  cells are read and written, and the algebra of the height queries. In the second, a
  \<open>float\<close> is an IEEE 754 binary32 value and every operation rounds to nearest, overflows
  to an infinity and propagates NaN; the functions modelled in it have the suffix
  \<open>_f32\<close>. It carries the properties whose truth depends on rounding and overflow:
  the drop of the capsule onto flat terrain and the range of the noise and of the
  generated elevations.

  An \<open>int\<close> is a mathematical integer together with the 32-bit range it has to stay in; a
  conversion or an addition that leaves the range is undefined behaviour in C++ and is
  the value \<open>None\<close> here, as is a read of a \<open>std::vector\<close> outside its size.
\<close>

subsection \<open>Integers, vectors and the stored grid\<close>

definition in_int_range :: "int \<Rightarrow> bool" where
  "in_int_range i \<longleftrightarrow> - (2 ^ 31) \<le> i \<and> i < 2 ^ 31"

text \<open>
  \<open>static_cast<int>(v)\<close> drops the fractional part (rounds toward zero); the result is
  undefined when the truncated value is not an \<open>int\<close>.
\<close>

definition float_to_int :: "real \<Rightarrow> int option" where
  "float_to_int v =
     (let t = (if 0 \<le> v then \<lfloor>v\<rfloor> else \<lceil>v\<rceil>)
      in if in_int_range t then Some t else None)"

text \<open>Signed addition; overflow is undefined.\<close>

definition int_add :: "int \<Rightarrow> int \<Rightarrow> int option" where
  "int_add a b = (if in_int_range (a + b) then Some (a + b) else None)"

text \<open>\<open>std::clamp(v, lo, hi)\<close>.\<close>

definition std_clamp :: "int \<Rightarrow> int \<Rightarrow> int \<Rightarrow> int" where
  "std_clamp v lo hi = (if v < lo then lo else if hi < v then hi else v)"

text \<open>\<open>glm::mix(a, b, t)\<close> of the GLM library: linear blend.\<close>

definition mix :: "real \<Rightarrow> real \<Rightarrow> real \<Rightarrow> real" where
  "mix a b t = a * (1 - t) + b * t"

definition GRID_W :: int where
  "GRID_W = 256"

definition GRID_H :: int where
  "GRID_H = 256"

text \<open>
  The global \<open>heightMap\<close> is a vector of rows; it is passed to every function that
  reads or writes it. \<open>cell hm r c\<close> is the unchecked read \<open>heightMap[r][c]\<close>.
\<close>

type_synonym heightmap = "real list list"

definition cell :: "heightmap \<Rightarrow> int \<Rightarrow> int \<Rightarrow> real option" where
  "cell hm r c =
     (if 0 \<le> r \<and> nat r < length hm \<and> 0 \<le> c \<and> nat c < length (hm ! nat r)
      then Some (hm ! nat r ! nat c) else None)"

text \<open>\<open>std::vector::resize(n)\<close>: keeps the first \<open>n\<close> elements, pads with the default.\<close>

definition vector_resize :: "nat \<Rightarrow> 'a \<Rightarrow> 'a list \<Rightarrow> 'a list" where
  "vector_resize n d xs = take n xs @ replicate (n - length xs) d"

datatype vec3 = Vec3 real real real

text \<open>A grid of \<open>h\<close> rows with \<open>w\<close> columns each.\<close>

definition is_grid :: "heightmap \<Rightarrow> nat \<Rightarrow> nat \<Rightarrow> bool" where
  "is_grid hm w h \<longleftrightarrow> length hm = h \<and> (\<forall>row \<in> set hm. length row = w)"

subsection \<open>fractalNoise\<close>

text \<open>
  The loop of \<open>fractalNoise\<close> with its four running variables; the function reads
  \<open>total\<close> (here \<open>total'\<close>) and \<open>maxValue\<close> afterwards.
\<close>

function fractalNoise_loop ::
  "int \<Rightarrow> int \<Rightarrow> real \<Rightarrow> real \<Rightarrow> real \<Rightarrow> real \<Rightarrow> real \<Rightarrow> real \<Rightarrow> real \<Rightarrow> real \<times> real" where
  "fractalNoise_loop i octaves x y persistence total' frequency amplitude maxValue =
     (if i < octaves
      then fractalNoise_loop (i + 1) octaves x y persistence
             (total' + amplitude * (0.5 * sin (x * frequency) * cos (y * frequency) + 0.5))
             (frequency * 2) (amplitude * persistence) (maxValue + amplitude)
      else (total', maxValue))"
  by pat_completeness auto
termination
  by (relation "measure (\<lambda>(i, octaves, _). nat (octaves - i))") auto

definition fractalNoise :: "real \<Rightarrow> real \<Rightarrow> int \<Rightarrow> real \<Rightarrow> real" where
  "fractalNoise x y octaves persistence =
     (case fractalNoise_loop 0 octaves x y persistence 0 0.5 64 0 of
        (total', maxValue) \<Rightarrow> total' / maxValue)"

text \<open>
  With \<open>octaves \<le> 0\<close> the loop does not run and the program divides 0 by 0, a NaN;
  the value of the definition there carries no meaning and nothing below uses it.
\<close>

text \<open>The call with the default arguments \<open>octaves = 6\<close>, \<open>persistence = 0.7f\<close>.\<close>

definition fractalNoise_default :: "real \<Rightarrow> real \<Rightarrow> real" where
  "fractalNoise_default x y = fractalNoise x y 6 0.7"

subsection \<open>generateHeightMap and generateVertices\<close>

text \<open>
  The inner loop writes \<open>heightMap[y][x]\<close> for \<open>x\<close> from its start up to \<open>w\<close>; the row
  has been resized to \<open>w\<close> before, so every write is inside the row.
\<close>

function generateHeightMap_row :: "int \<Rightarrow> int \<Rightarrow> int \<Rightarrow> real \<Rightarrow> real list \<Rightarrow> real list" where
  "generateHeightMap_row x w y scale row =
     (if x < w
      then (let hNoise = fractalNoise_default (of_int x * scale) (of_int y * scale);
                height = (hNoise - 0.5) * 50
            in generateHeightMap_row (x + 1) w y scale (row[nat x := height]))
      else row)"
  by pat_completeness auto
termination
  by (relation "measure (\<lambda>(x, w, _). nat (w - x))") auto

text \<open>
  The outer loop. A negative \<open>w\<close> makes \<open>resize\<close> throw \<open>std::length_error\<close>, which
  nothing catches: \<open>None\<close>.
\<close>

function generateHeightMap_rows :: "int \<Rightarrow> int \<Rightarrow> int \<Rightarrow> real \<Rightarrow> heightmap \<Rightarrow> heightmap option" where
  "generateHeightMap_rows y w h scale hm =
     (if y < h
      then (if w < 0 then None
            else generateHeightMap_rows (y + 1) w h scale
                   (hm[nat y := generateHeightMap_row 0 w y scale
                                   (vector_resize (nat w) 0 (hm ! nat y))]))
      else Some hm)"
  by pat_completeness auto
termination
  by (relation "measure (\<lambda>(y, w, h, _). nat (h - y))") auto

definition generateHeightMap :: "heightmap \<Rightarrow> int \<Rightarrow> int \<Rightarrow> real \<Rightarrow> heightmap option" where
  "generateHeightMap hm w h scale =
     (if h < 0 then None
      else generateHeightMap_rows 0 w h scale (vector_resize (nat h) [] hm))"

function generateVertices_row :: "int \<Rightarrow> int \<Rightarrow> int \<Rightarrow> real \<Rightarrow> real list \<Rightarrow> real list" where
  "generateVertices_row x w y scale verts =
     (if x < w
      then (let spacing = 10;
                hNoise = fractalNoise_default (of_int x * scale) (of_int y * scale);
                height = (hNoise - 0.5) * 50
            in generateVertices_row (x + 1) w y scale
                 (((verts @ [of_int x * spacing]) @ [height]) @ [of_int y * spacing]))
      else verts)"
  by pat_completeness auto
termination
  by (relation "measure (\<lambda>(x, w, _). nat (w - x))") auto

function generateVertices_rows :: "int \<Rightarrow> int \<Rightarrow> int \<Rightarrow> real \<Rightarrow> real list \<Rightarrow> real list" where
  "generateVertices_rows y w h scale verts =
     (if y < h
      then generateVertices_rows (y + 1) w h scale (generateVertices_row 0 w y scale verts)
      else verts)"
  by pat_completeness auto
termination
  by (relation "measure (\<lambda>(y, w, h, _). nat (h - y))") auto

definition generateVertices :: "real list \<Rightarrow> int \<Rightarrow> int \<Rightarrow> real \<Rightarrow> real list" where
  "generateVertices verts w h scale = generateVertices_rows 0 w h scale verts"

subsection \<open>Height queries\<close>

definition getInterpolatedHeight :: "heightmap \<Rightarrow> real \<Rightarrow> real \<Rightarrow> real option" where
  "getInterpolatedHeight hm x z =
     do {
       x0 \<leftarrow> float_to_int (x / 10);
       z0 \<leftarrow> float_to_int (z / 10);
       x1 \<leftarrow> int_add x0 1;
       z1 \<leftarrow> int_add z0 1;
       let tx = x / 10 - of_int x0;
       let tz = z / 10 - of_int z0;
       let x0' = std_clamp x0 0 (GRID_W - 1);
       let x1' = std_clamp x1 0 (GRID_W - 1);
       let z0' = std_clamp z0 0 (GRID_H - 1);
       let z1' = std_clamp z1 0 (GRID_H - 1);
       h00 \<leftarrow> cell hm z0' x0';
       h10 \<leftarrow> cell hm z0' x1';
       h01 \<leftarrow> cell hm z1' x0';
       h11 \<leftarrow> cell hm z1' x1';
       let hx0 = mix h00 h10 tx;
       let hx1 = mix h01 h11 tx;
       Some (mix hx0 hx1 tz)
     }"

definition getHeight :: "heightmap \<Rightarrow> real \<Rightarrow> real \<Rightarrow> real option" where
  "getHeight hm x z =
     do {
       let spacing = 10;
       gridX \<leftarrow> float_to_int (x / spacing);
       gridZ \<leftarrow> float_to_int (z / spacing);
       let gridX' = std_clamp gridX 0 (GRID_W - 1);
       let gridZ' = std_clamp gridZ 0 (GRID_H - 1);
       cell hm gridZ' gridX'
     }"

subsection \<open>findSpawnPoint\<close>

text \<open>
  The inner loop either returns from the function, runs to its end, or reads outside a
  vector.
\<close>

datatype row_scan = Found vec3 | NotFound | BadRead

function findSpawnPoint_row ::
  "heightmap \<Rightarrow> real \<Rightarrow> real \<Rightarrow> real \<Rightarrow> int \<Rightarrow> int \<Rightarrow> int \<Rightarrow> row_scan" where
  "findSpawnPoint_row hm spacing capsuleHeight capsuleRadius w y x =
     (if x < w - 5
      then (case cell hm y x of None \<Rightarrow> BadRead | Some center \<Rightarrow>
            (case cell hm y (x + 1) of None \<Rightarrow> BadRead | Some right \<Rightarrow>
            (case cell hm (y + 1) x of None \<Rightarrow> BadRead | Some down \<Rightarrow>
               (let dx = \<bar>center - right\<bar>; dz = \<bar>center - down\<bar>
                in if dx < 1 \<and> dz < 1
                   then (let worldX = of_int x * spacing;
                             worldZ = of_int y * spacing;
                             worldY = center + capsuleHeight * 0.5 + capsuleRadius + 0.1
                         in Found (Vec3 worldX worldY worldZ))
                   else findSpawnPoint_row hm spacing capsuleHeight capsuleRadius w y (x + 1)))))
      else NotFound)"
  by pat_completeness auto
termination
  by (relation "measure (\<lambda>(hm, spacing, capsuleHeight, capsuleRadius, w, y, x). nat (w - 5 - x))") auto

function findSpawnPoint_rows ::
  "heightmap \<Rightarrow> real \<Rightarrow> real \<Rightarrow> real \<Rightarrow> int \<Rightarrow> int \<Rightarrow> int \<Rightarrow> vec3 option" where
  "findSpawnPoint_rows hm spacing capsuleHeight capsuleRadius w h y =
     (if y < h - 5
      then (case findSpawnPoint_row hm spacing capsuleHeight capsuleRadius w y 5 of
              Found v \<Rightarrow> Some v
            | BadRead \<Rightarrow> None
            | NotFound \<Rightarrow> findSpawnPoint_rows hm spacing capsuleHeight capsuleRadius w h (y + 1))
      else Some (Vec3 0 50 0))"
  by pat_completeness auto
termination
  by (relation "measure (\<lambda>(hm, spacing, capsuleHeight, capsuleRadius, w, h, y). nat (h - 5 - y))") auto

text \<open>\<open>heightMap[0].size()\<close> on an empty vector reads outside it.\<close>

definition findSpawnPoint :: "heightmap \<Rightarrow> real \<Rightarrow> real \<Rightarrow> real \<Rightarrow> vec3 option" where
  "findSpawnPoint hm spacing capsuleHeight capsuleRadius =
     (if hm = [] then None
      else (let w = int (length (hm ! 0)); h = int (length hm)
            in findSpawnPoint_rows hm spacing capsuleHeight capsuleRadius w h 5))"

text \<open>
  The nearest coordinate inside the extent of an axis with \<open>n\<close> cells, 10 world units
  apart: \<open>0\<close> for a negative coordinate, \<open>(n - 1) * 10\<close> for one beyond the last cell.
\<close>

definition clamp_coord :: "int \<Rightarrow> real \<Rightarrow> real" where
  "clamp_coord n v = max 0 (min v (of_int (n - 1) * 10))"

text \<open>
  Sample grids of \<open>n\<close> rows and columns sloping along x: cell \<open>(x, y)\<close> holds
  \<open>k * x\<close>.
\<close>

definition slope_grid :: "real \<Rightarrow> nat \<Rightarrow> heightmap" where
  "slope_grid k n = map (\<lambda>r. map (\<lambda>c. k * real c) [0..<n]) [0..<n]"

text \<open>
  The scan of \<open>findSpawnPoint\<close> as the specification describes it, a search: the cells \<open>(x, y)\<close> in row-major
  order with \<open>x\<close> in \<open>[5, w - 5)\<close> and \<open>y\<close> in \<open>[5, h - 5)\<close>, the flatness
  test against the right and the lower neighbour, and the position returned for a cell.
\<close>

definition scan_order :: "nat \<Rightarrow> nat \<Rightarrow> (nat \<times> nat) list" where
  "scan_order w h = concat (map (\<lambda>y. map (\<lambda>x. (x, y)) [5..<w - 5]) [5..<h - 5])"

definition flat_cell :: "heightmap \<Rightarrow> nat \<times> nat \<Rightarrow> bool" where
  "flat_cell hm = (\<lambda>(x, y). \<bar>hm ! y ! x - hm ! y ! (x + 1)\<bar> < 1
                            \<and> \<bar>hm ! y ! x - hm ! (y + 1) ! x\<bar> < 1)"

definition spawn_at :: "heightmap \<Rightarrow> real \<Rightarrow> real \<Rightarrow> real \<Rightarrow> nat \<times> nat \<Rightarrow> vec3" where
  "spawn_at hm spacing capsuleHeight capsuleRadius =
     (\<lambda>(x, y). Vec3 (real x * spacing)
                     (hm ! y ! x + capsuleHeight / 2 + capsuleRadius + 0.1)
                     (real y * spacing))"

definition first_flat_spawn :: "heightmap \<Rightarrow> nat \<Rightarrow> nat \<Rightarrow> real \<Rightarrow> real \<Rightarrow> real \<Rightarrow> vec3" where
  "first_flat_spawn hm w h spacing capsuleHeight capsuleRadius =
     (case List.find (flat_cell hm) (scan_order w h) of
        Some c \<Rightarrow> spawn_at hm spacing capsuleHeight capsuleRadius c
      | None \<Rightarrow> Vec3 0 50 0)"

subsection \<open>CapsuleCollider\<close>

record CapsuleCollider =
  posX :: real
  posY :: real
  posZ :: real
  velocityY :: real
  capsuleRadius :: real
  onGround :: bool
  clamped :: bool
  height :: real

definition gravity :: real where
  "gravity = - 9.8"

definition groundEpsilon :: real where
  "groundEpsilon = 0.001"

text \<open>The constructor: velocity zero, both flags false.\<close>

definition new_CapsuleCollider :: "real \<Rightarrow> real \<Rightarrow> real \<Rightarrow> real \<Rightarrow> real \<Rightarrow> CapsuleCollider" where
  "new_CapsuleCollider x y z h radius =
     \<lparr> posX = x, posY = y, posZ = z, velocityY = 0, capsuleRadius = radius,
       onGround = False, clamped = False, height = h \<rparr>"

text \<open>
  \<open>update\<close>, statement by statement: the velocity is integrated first, the candidate
  position uses the new velocity, and the terrain is queried at the current \<open>(posX, posZ)\<close>.
\<close>

definition update :: "real \<Rightarrow> (real \<Rightarrow> real \<Rightarrow> real) \<Rightarrow> CapsuleCollider \<Rightarrow> CapsuleCollider" where
  "update dt getTerrainHeight c =
     (let c1 = c\<lparr>velocityY := velocityY c + gravity * dt\<rparr>;
          newY = posY c1 + velocityY c1 * dt;
          terrainY = getTerrainHeight (posX c1) (posZ c1);
          capsuleBottom = newY - height c1 / 2
      in if capsuleBottom \<le> terrainY
         then (c1\<lparr>velocityY := 0\<rparr>)\<lparr>posY := terrainY + height c1 / 2\<rparr>
         else c1\<lparr>posY := newY\<rparr>)"

definition moveHorizontal :: "real \<Rightarrow> real \<Rightarrow> CapsuleCollider \<Rightarrow> CapsuleCollider" where
  "moveHorizontal dx dz c = c\<lparr>posX := posX c + dx, posZ := posZ c + dz\<rparr>"

text \<open>A height source that is the same everywhere, and the test of the snap branch.\<close>

definition flatTerrain :: "real \<Rightarrow> real \<Rightarrow> real \<Rightarrow> real" where
  "flatTerrain E x z = E"

definition snaps :: "real \<Rightarrow> (real \<Rightarrow> real \<Rightarrow> real) \<Rightarrow> CapsuleCollider \<Rightarrow> bool" where
  "snaps dt getTerrainHeight c \<longleftrightarrow>
     posY c + (velocityY c + gravity * dt) * dt - height c / 2
       \<le> getTerrainHeight (posX c) (posZ c)"

text \<open>The frame loop calls \<open>update\<close> once per tick; \<open>ticks n\<close> is \<open>n\<close> such calls.\<close>

definition ticks :: "nat \<Rightarrow> real \<Rightarrow> (real \<Rightarrow> real \<Rightarrow> real) \<Rightarrow> CapsuleCollider \<Rightarrow> CapsuleCollider" where
  "ticks n dt getTerrainHeight c = ((update dt getTerrainHeight) ^^ n) c"

subsection \<open>Binary32 arithmetic\<close>

text \<open>
  A \<open>float\<close> is an IEEE 754 binary32 value: a finite number with a 24-bit significand
  and an exponent from \<open>-126\<close> to \<open>127\<close> (subnormal numbers included), an infinity,
  or NaN. Every operation computes the exact result and rounds it to the nearest
  representable number, ties to the even significand; a rounded magnitude of
  \<open>2\<^sup>1\<^sup>2\<^sup>8\<close> or more is an infinity. The two zeros are not told apart.

  \<open>round_even\<close> rounds a real to the nearest integer, ties to even.
\<close>

definition round_even :: "real \<Rightarrow> int" where
  "round_even r =
     (let f = \<lfloor>r\<rfloor>; d = r - of_int f
      in if d < 1 / 2 then f else if 1 / 2 < d then f + 1 else if even f then f else f + 1)"

text \<open>
  The exponent of a positive real, the spacing of the binary32 numbers around it, and
  the real rounded to that spacing; \<open>rnd_real\<close> rounds a real of either sign and ignores
  overflow.
\<close>

definition expo :: "real \<Rightarrow> int" where
  "expo a = max \<lfloor>log 2 a\<rfloor> (- 126)"

definition ulp :: "real \<Rightarrow> real" where
  "ulp a = 2 powi (expo a - 23)"

definition rnd_mag :: "real \<Rightarrow> real" where
  "rnd_mag a = of_int (round_even (a / ulp a)) * ulp a"

definition rnd_real :: "real \<Rightarrow> real" where
  "rnd_real x = sgn x * rnd_mag \<bar>x\<bar>"

datatype f32 = Fin real | PInf | NInf | NaN

text \<open>Rounding an exact result to a \<open>float\<close>, with overflow to the infinities.\<close>

definition rnd :: "real \<Rightarrow> f32" where
  "rnd x =
     (let r = rnd_real x
      in if 2 ^ 128 \<le> r then PInf else if r \<le> - (2 ^ 128) then NInf else Fin r)"

text \<open>The reals that are finite binary32 numbers.\<close>

definition is_f32 :: "real \<Rightarrow> bool" where
  "is_f32 r \<longleftrightarrow> rnd_real r = r \<and> \<bar>r\<bar> < 2 ^ 128"

text \<open>
  Negation, \<open>+\<close>, \<open>-\<close>, \<open>*\<close>, \<open>/\<close> and \<open>\<le>\<close> of \<open>float\<close>. NaN propagates;
  \<open>\<infinity> - \<infinity>\<close>, \<open>0 * \<infinity>\<close>, \<open>0 / 0\<close> and \<open>\<infinity> / \<infinity>\<close> are NaN; a comparison with NaN
  is false.
\<close>

fun fneg :: "f32 \<Rightarrow> f32" where
  "fneg (Fin a) = Fin (- a)"
| "fneg PInf = NInf"
| "fneg NInf = PInf"
| "fneg NaN = NaN"

fun fadd :: "f32 \<Rightarrow> f32 \<Rightarrow> f32" where
  "fadd NaN b = NaN"
| "fadd a NaN = NaN"
| "fadd PInf NInf = NaN"
| "fadd NInf PInf = NaN"
| "fadd PInf b = PInf"
| "fadd a PInf = PInf"
| "fadd NInf b = NInf"
| "fadd a NInf = NInf"
| "fadd (Fin a) (Fin b) = rnd (a + b)"

definition fsub :: "f32 \<Rightarrow> f32 \<Rightarrow> f32" where
  "fsub a b = fadd a (fneg b)"

fun inf_of_sign :: "real \<Rightarrow> f32" where
  "inf_of_sign s = (if s = 0 then NaN else if 0 < s then PInf else NInf)"

fun fmul :: "f32 \<Rightarrow> f32 \<Rightarrow> f32" where
  "fmul NaN b = NaN"
| "fmul a NaN = NaN"
| "fmul PInf PInf = PInf"
| "fmul PInf NInf = NInf"
| "fmul NInf PInf = NInf"
| "fmul NInf NInf = PInf"
| "fmul PInf (Fin b) = inf_of_sign b"
| "fmul NInf (Fin b) = inf_of_sign (- b)"
| "fmul (Fin a) PInf = inf_of_sign a"
| "fmul (Fin a) NInf = inf_of_sign (- a)"
| "fmul (Fin a) (Fin b) = rnd (a * b)"

fun fdiv :: "f32 \<Rightarrow> f32 \<Rightarrow> f32" where
  "fdiv NaN b = NaN"
| "fdiv a NaN = NaN"
| "fdiv PInf (Fin b) = (if 0 \<le> b then PInf else NInf)"
| "fdiv NInf (Fin b) = (if 0 \<le> b then NInf else PInf)"
| "fdiv (Fin a) (Fin b) = (if b = 0 then inf_of_sign a else rnd (a / b))"
| "fdiv (Fin a) b = Fin 0"
| "fdiv a b = NaN"

fun fle :: "f32 \<Rightarrow> f32 \<Rightarrow> bool" where
  "fle NaN b = False"
| "fle a NaN = False"
| "fle NInf b = True"
| "fle a PInf = True"
| "fle PInf b = False"
| "fle a NInf = False"
| "fle (Fin a) (Fin b) = (a \<le> b)"

text \<open>
  The position of a \<open>float\<close> on the real line, the infinities at \<open>\<plusminus>2\<^sup>1\<^sup>2\<^sup>8\<close>; used to
  state that rounding is monotone.
\<close>

fun val :: "f32 \<Rightarrow> real" where
  "val (Fin r) = r"
| "val PInf = 2 ^ 128"
| "val NInf = - (2 ^ 128)"
| "val NaN = 0"

text \<open>The conversion of an \<open>int\<close> to \<open>float\<close> in \<open>x * scale\<close>.\<close>

definition int_to_f32 :: "int \<Rightarrow> f32" where
  "int_to_f32 i = rnd (of_int i)"

subsection \<open>CapsuleCollider in binary32\<close>

text \<open>
  The same record and the same \<open>update\<close>, every operation a \<open>float\<close> operation.
  \<open>gravity\<close> is the \<open>float\<close> nearest to \<open>-9.8\<close>, which is \<open>-10276045 / 2\<^sup>2\<^sup>0\<close>.
\<close>

record CapsuleCollider_f32 =
  posX_f32 :: f32
  posY_f32 :: f32
  posZ_f32 :: f32
  velocityY_f32 :: f32
  capsuleRadius_f32 :: f32
  onGround_f32 :: bool
  clamped_f32 :: bool
  height_f32 :: f32

definition gravity_f32 :: f32 where
  "gravity_f32 = Fin (- (10276045 / 2 ^ 20))"

definition new_CapsuleCollider_f32 :: "f32 \<Rightarrow> f32 \<Rightarrow> f32 \<Rightarrow> f32 \<Rightarrow> f32 \<Rightarrow> CapsuleCollider_f32" where
  "new_CapsuleCollider_f32 x y z h radius =
     \<lparr> posX_f32 = x, posY_f32 = y, posZ_f32 = z, velocityY_f32 = Fin 0,
       capsuleRadius_f32 = radius, onGround_f32 = False, clamped_f32 = False, height_f32 = h \<rparr>"

definition update_f32 ::
  "f32 \<Rightarrow> (f32 \<Rightarrow> f32 \<Rightarrow> f32) \<Rightarrow> CapsuleCollider_f32 \<Rightarrow> CapsuleCollider_f32" where
  "update_f32 dt getTerrainHeight c =
     (let c1 = c\<lparr>velocityY_f32 := fadd (velocityY_f32 c) (fmul gravity_f32 dt)\<rparr>;
          newY = fadd (posY_f32 c1) (fmul (velocityY_f32 c1) dt);
          terrainY = getTerrainHeight (posX_f32 c1) (posZ_f32 c1);
          capsuleBottom = fsub newY (fdiv (height_f32 c1) (Fin 2))
      in if fle capsuleBottom terrainY
         then (c1\<lparr>velocityY_f32 := Fin 0\<rparr>)
                \<lparr>posY_f32 := fadd terrainY (fdiv (height_f32 c1) (Fin 2))\<rparr>
         else c1\<lparr>posY_f32 := newY\<rparr>)"

definition flatTerrain_f32 :: "f32 \<Rightarrow> f32 \<Rightarrow> f32 \<Rightarrow> f32" where
  "flatTerrain_f32 E x z = E"

definition ticks_f32 ::
  "nat \<Rightarrow> f32 \<Rightarrow> (f32 \<Rightarrow> f32 \<Rightarrow> f32) \<Rightarrow> CapsuleCollider_f32 \<Rightarrow> CapsuleCollider_f32" where
  "ticks_f32 n dt getTerrainHeight c = ((update_f32 dt getTerrainHeight) ^^ n) c"

text \<open>Minus infinity or a binary32 number that is at most 0: the velocities of a fall.\<close>

definition low :: "f32 \<Rightarrow> bool" where
  "low v \<longleftrightarrow> v = NInf \<or> (\<exists>r. v = Fin r \<and> r \<le> 0 \<and> is_f32 r)"

text \<open>
  The two kinds of state of a drop from height \<open>y0\<close> onto terrain \<open>E\<close>: still above the
  terrain at the height \<open>y\<close>, or at rest where the snap branch puts the capsule, which
  is the float sum of \<open>E\<close> and the float half of the capsule height.
\<close>

definition falling :: "real \<Rightarrow> real \<Rightarrow> real \<Rightarrow> CapsuleCollider_f32 \<Rightarrow> real \<Rightarrow> bool" where
  "falling E H y0 c y \<longleftrightarrow>
     height_f32 c = Fin H \<and> posY_f32 c = Fin y \<and> is_f32 y \<and> E + rnd_real (H / 2) < y \<and> y \<le> y0
     \<and> low (velocityY_f32 c)"

definition settled :: "real \<Rightarrow> real \<Rightarrow> CapsuleCollider_f32 \<Rightarrow> bool" where
  "settled E H c \<longleftrightarrow>
     height_f32 c = Fin H \<and> posY_f32 c = Fin (rnd_real (E + rnd_real (H / 2)))
     \<and> velocityY_f32 c = Fin 0"

text \<open>
  The decrement of one tick from rest, \<open>gravity * dt * dt\<close>, is not absorbed by the
  rounding of the position at any height between the resting height and the start.
\<close>

definition not_absorbed :: "real \<Rightarrow> real \<Rightarrow> real \<Rightarrow> real \<Rightarrow> bool" where
  "not_absorbed E H y0 t \<longleftrightarrow>
     (\<forall>y. is_f32 y \<and> rnd_real (E + rnd_real (H / 2)) \<le> y \<and> y \<le> y0 \<longrightarrow>
          val (fadd (Fin y) (fmul (fmul gravity_f32 (Fin t)) (Fin t))) < y)"

text \<open>
  The states of a capsule of height 4 that hangs at height 10 with a velocity between
  \<open>-2\<close> and \<open>0\<close>.
\<close>

definition stuck :: "CapsuleCollider_f32 \<Rightarrow> bool" where
  "stuck c \<longleftrightarrow>
     posY_f32 c = Fin 10 \<and> height_f32 c = Fin 4
     \<and> (\<exists>v. velocityY_f32 c = Fin v \<and> is_f32 v \<and> - 2 \<le> v \<and> v \<le> 0)"

subsection \<open>fractalNoise and generateHeightMap in binary32\<close>

text \<open>
  The loop of \<open>fractalNoise\<close> again, every operation a \<open>float\<close> operation in the order
  the expression \<open>amplitude * (0.5f * sin(x * frequency) * cos(y * frequency) + 0.5f)\<close>
  is parsed. The library functions \<open>sin\<close> and \<open>cos\<close> are the parameters \<open>sinf\<close> and
  \<open>cosf\<close>; the theorems below assume of them only that the sine of a NaN or of an
  infinity is NaN, as the C standard (Annex F) has it. Where the call resolves to the
  \<open>double\<close> function the products and the sum inside the parentheses are computed in
  \<open>double\<close> before the result is stored in the \<open>float\<close> \<open>total\<close>; the model rounds every
  step to \<open>float\<close>. The two readings differ in the last digits of a finite result only:
  \<open>x * frequency\<close> and \<open>frequency *= 2.0f\<close> are \<open>float\<close> operations in both, and NaN
  propagates through both alike.
\<close>

function fractalNoise_loop_f32 ::
  "(f32 \<Rightarrow> f32) \<Rightarrow> (f32 \<Rightarrow> f32) \<Rightarrow> int \<Rightarrow> int \<Rightarrow> f32 \<Rightarrow> f32 \<Rightarrow> f32 \<Rightarrow> f32 \<Rightarrow> f32 \<Rightarrow> f32 \<Rightarrow> f32
     \<Rightarrow> f32 \<times> f32" where
  "fractalNoise_loop_f32 sinf cosf i octaves x y persistence total' frequency amplitude maxValue =
     (if i < octaves
      then fractalNoise_loop_f32 sinf cosf (i + 1) octaves x y persistence
             (fadd total'
                (fmul amplitude
                   (fadd (fmul (fmul (Fin (1 / 2)) (sinf (fmul x frequency)))
                               (cosf (fmul y frequency)))
                         (Fin (1 / 2)))))
             (fmul frequency (Fin 2)) (fmul amplitude persistence) (fadd maxValue amplitude)
      else (total', maxValue))"
  by pat_completeness auto
termination
  by (relation "measure (\<lambda>(_, _, i, octaves, _). nat (octaves - i))") auto

definition fractalNoise_f32 ::
  "(f32 \<Rightarrow> f32) \<Rightarrow> (f32 \<Rightarrow> f32) \<Rightarrow> f32 \<Rightarrow> f32 \<Rightarrow> int \<Rightarrow> f32 \<Rightarrow> f32" where
  "fractalNoise_f32 sinf cosf x y octaves persistence =
     (case fractalNoise_loop_f32 sinf cosf 0 octaves x y persistence
             (Fin 0) (Fin (1 / 2)) (Fin 64) (Fin 0) of
        (total', maxValue) \<Rightarrow> fdiv total' maxValue)"

text \<open>
  The default arguments: \<open>octaves = 6\<close> and \<open>persistence = 0.7f\<close>, the \<open>float\<close>
  \<open>11744051 / 2\<^sup>2\<^sup>4\<close>.
\<close>

definition fractalNoise_default_f32 :: "(f32 \<Rightarrow> f32) \<Rightarrow> (f32 \<Rightarrow> f32) \<Rightarrow> f32 \<Rightarrow> f32 \<Rightarrow> f32" where
  "fractalNoise_default_f32 sinf cosf x y =
     fractalNoise_f32 sinf cosf x y 6 (Fin (11744051 / 2 ^ 24))"

function generateHeightMap_row_f32 ::
  "(f32 \<Rightarrow> f32) \<Rightarrow> (f32 \<Rightarrow> f32) \<Rightarrow> int \<Rightarrow> int \<Rightarrow> int \<Rightarrow> f32 \<Rightarrow> f32 list \<Rightarrow> f32 list" where
  "generateHeightMap_row_f32 sinf cosf x w y scale row =
     (if x < w
      then (let hNoise = fractalNoise_default_f32 sinf cosf
                           (fmul (int_to_f32 x) scale) (fmul (int_to_f32 y) scale);
                height = fmul (fsub hNoise (Fin (1 / 2))) (Fin 50)
            in generateHeightMap_row_f32 sinf cosf (x + 1) w y scale (row[nat x := height]))
      else row)"
  by pat_completeness auto
termination
  by (relation "measure (\<lambda>(_, _, x, w, _). nat (w - x))") auto

function generateHeightMap_rows_f32 ::
  "(f32 \<Rightarrow> f32) \<Rightarrow> (f32 \<Rightarrow> f32) \<Rightarrow> int \<Rightarrow> int \<Rightarrow> int \<Rightarrow> f32 \<Rightarrow> f32 list list
     \<Rightarrow> f32 list list option" where
  "generateHeightMap_rows_f32 sinf cosf y w h scale hm =
     (if y < h
      then (if w < 0 then None
            else generateHeightMap_rows_f32 sinf cosf (y + 1) w h scale
                   (hm[nat y := generateHeightMap_row_f32 sinf cosf 0 w y scale
                                   (vector_resize (nat w) (Fin 0) (hm ! nat y))]))
      else Some hm)"
  by pat_completeness auto
termination
  by (relation "measure (\<lambda>(_, _, y, w, h, _). nat (h - y))") auto

definition generateHeightMap_f32 ::
  "(f32 \<Rightarrow> f32) \<Rightarrow> (f32 \<Rightarrow> f32) \<Rightarrow> f32 list list \<Rightarrow> int \<Rightarrow> int \<Rightarrow> f32 \<Rightarrow> f32 list list option" where
  "generateHeightMap_f32 sinf cosf hm w h scale =
     (if h < 0 then None
      else generateHeightMap_rows_f32 sinf cosf 0 w h scale (vector_resize (nat h) [] hm))"

text \<open>
  The correctly rounded sine and cosine: one pair of functions that the parameters
  \<open>sinf\<close> and \<open>cosf\<close> can stand for.
\<close>

definition sin_rounded :: "f32 \<Rightarrow> f32" where
  "sin_rounded v = (case v of Fin r \<Rightarrow> rnd (sin r) | _ \<Rightarrow> NaN)"

definition cos_rounded :: "f32 \<Rightarrow> f32" where
  "cos_rounded v = (case v of Fin r \<Rightarrow> rnd (cos r) | _ \<Rightarrow> NaN)"

text \<open>The loop equations are unfolded by hand, one iteration at a time.\<close>

declare fractalNoise_loop.simps [simp del]
declare generateHeightMap_row.simps [simp del]
declare generateHeightMap_rows.simps [simp del]
declare generateVertices_row.simps [simp del]
declare generateVertices_rows.simps [simp del]
declare findSpawnPoint_row.simps [simp del]
declare findSpawnPoint_rows.simps [simp del]
declare fractalNoise_loop_f32.simps [simp del]
declare generateHeightMap_row_f32.simps [simp del]
declare generateHeightMap_rows_f32.simps [simp del]

section \<open>Properties of the capsule update\<close>

text \<open>
  C1: for every state, every \<open>dt\<close> and every height query \<open>q\<close>, \<open>update\<close> yields
  velocityY' = velocityY + gravity * dt, candidateY = posY + velocityY' * dt and
  terrainY = q posX posZ; when candidateY - height / 2 is at most terrainY the new posY is
  terrainY + height / 2 and the new velocityY is 0, otherwise the new posY is candidateY and
  the velocity stays velocityY'. posX, posZ and every other field are unchanged.
\<close>

theorem update_exact:
  "update dt q c =
     (if posY c + (velocityY c + gravity * dt) * dt - height c / 2 \<le> q (posX c) (posZ c)
      then c\<lparr>posY := q (posX c) (posZ c) + height c / 2, velocityY := 0\<rparr>
      else c\<lparr>posY := posY c + (velocityY c + gravity * dt) * dt,
              velocityY := velocityY c + gravity * dt\<rparr>)
   \<and> posX (update dt q c) = posX c \<and> posZ (update dt q c) = posZ c
   \<and> gravity = - 9.8"
  by (simp add: update_def Let_def gravity_def)

subsection \<open>Fields that \<open>update\<close> never writes\<close>

lemma ticks_0: "ticks 0 dt q c = c" by (simp add: ticks_def)
lemma ticks_Suc: "ticks (Suc n) dt q c = update dt q (ticks n dt q c)" by (simp add: ticks_def)

lemma update_frame:
  "height (update dt q c) = height c" "onGround (update dt q c) = onGround c"
  "clamped (update dt q c) = clamped c" "posX (update dt q c) = posX c" "posZ (update dt q c) = posZ c"
  "capsuleRadius (update dt q c) = capsuleRadius c"
  by (simp_all add: update_def Let_def)

lemma ticks_frame:
  "height (ticks n dt q c) = height c \<and> onGround (ticks n dt q c) = onGround c \<and>
  clamped (ticks n dt q c) = clamped c"
  by (induction n) (simp_all add: ticks_0 ticks_Suc update_frame)

text \<open>
  C3 (as stated): after an \<open>update\<close> that took the snap branch, \<open>onGround\<close> and
  \<open>clamped\<close> would be true. A collider built by the constructor at height 0 over flat
  terrain of elevation 0, with \<open>dt = 1\<close>, takes the snap branch (it ends at
  \<open>posY = 2\<close> with velocity 0), and both flags are still false.
\<close>

theorem flags_not_set_on_snap:
  "snaps 1 (flatTerrain 0) (new_CapsuleCollider 0 0 0 4 1)
   \<and> posY (update 1 (flatTerrain 0) (new_CapsuleCollider 0 0 0 4 1)) = 2
   \<and> velocityY (update 1 (flatTerrain 0) (new_CapsuleCollider 0 0 0 4 1)) = 0
   \<and> \<not> onGround (update 1 (flatTerrain 0) (new_CapsuleCollider 0 0 0 4 1))
   \<and> \<not> clamped (update 1 (flatTerrain 0) (new_CapsuleCollider 0 0 0 4 1))"
  by (simp add: snaps_def update_def Let_def flatTerrain_def new_CapsuleCollider_def gravity_def)

text \<open>
  C3 (amended): \<open>update\<close> never writes \<open>onGround\<close> or \<open>clamped\<close>: after every
  call, in either branch, both have the value they had before; for a collider built by
  the constructor they are false after any number of updates.
\<close>

theorem flags_unchanged:
  "onGround (update dt q c) = onGround c \<and> clamped (update dt q c) = clamped c
   \<and> \<not> onGround (ticks n dt q (new_CapsuleCollider x y z h r))
   \<and> \<not> clamped (ticks n dt q (new_CapsuleCollider x y z h r))"
  by (simp add: update_frame ticks_frame) (simp add: new_CapsuleCollider_def)

section \<open>Rounding to binary32\<close>

subsection \<open>Rounding to the nearest integer and the exponent\<close>

lemma round_even_of_int [simp]: "round_even (of_int n) = n"
  by (simp add: round_even_def)

lemma round_even_0 [simp]: "round_even 0 = 0"
  by (simp add: round_even_def)

lemma round_even_lower: "\<lfloor>r\<rfloor> \<le> round_even r"
  by (simp add: round_even_def Let_def)

lemma round_even_upper: "round_even r \<le> \<lfloor>r\<rfloor> + 1"
  by (simp add: round_even_def Let_def)

lemma round_even_mono: "r \<le> s \<Longrightarrow> round_even r \<le> round_even s"
proof -
  assume rs: "r \<le> s"
  then have fl: "\<lfloor>r\<rfloor> \<le> \<lfloor>s\<rfloor>" by (rule floor_mono)
  show ?thesis
  proof (cases "\<lfloor>r\<rfloor> = \<lfloor>s\<rfloor>")
    case True
    then show ?thesis using rs by (auto simp: round_even_def Let_def)
  next
    case False
    then have "\<lfloor>r\<rfloor> + 1 \<le> \<lfloor>s\<rfloor>" using fl by simp
    then show ?thesis
      using round_even_upper[of r] round_even_lower[of s] by linarith
  qed
qed

lemma pow2_bridge: "2 powr (of_int k) = (2::real) powi k"
  by (simp add: powr_real_of_int power_int_def inverse_eq_divide power_one_over)

lemma expo_upper: "0 < a \<Longrightarrow> a < 2 powi (expo a + 1)"
proof -
  assume a: "0 < a"
  have "a < 2 powr (of_int (\<lfloor>log 2 a\<rfloor> + 1))"
    using a floor_log_eq_powr_iff[of a 2 "\<lfloor>log 2 a\<rfloor>"] by simp
  then have "a < 2 powi (\<lfloor>log 2 a\<rfloor> + 1)" by (simp only: pow2_bridge)
  also have "\<dots> \<le> 2 powi (expo a + 1)"
    by (rule power_int_increasing) (simp_all add: expo_def)
  finally show ?thesis .
qed

lemma expo_eq: "2 powi e \<le> a \<Longrightarrow> a < 2 powi (e + 1) \<Longrightarrow> - 126 \<le> e \<Longrightarrow> expo a = e"
proof -
  assume h: "2 powi e \<le> a" "a < 2 powi (e + 1)" "- 126 \<le> e"
  have a: "0 < a" using h(1) by (rule less_le_trans[rotated]) simp
  have "2 powr (of_int e) \<le> a \<and> a < 2 powr (of_int e + 1)"
    using h(1,2) pow2_bridge[of e] pow2_bridge[of "e + 1"] by simp
  then have "\<lfloor>log 2 a\<rfloor> = e" using floor_log_eq_powr_iff[of a 2 e] a by simp
  then show ?thesis using h(3) by (simp add: expo_def)
qed

lemma expo_lower: "2 powi (- 126) \<le> a \<Longrightarrow> 2 powi (expo a) \<le> a"
proof -
  assume h: "2 powi (- 126) \<le> a"
  have a: "0 < a" using h by (rule less_le_trans[rotated]) simp
  have l: "2 powi \<lfloor>log 2 a\<rfloor> \<le> a"
    using a floor_log_eq_powr_iff[of a 2 "\<lfloor>log 2 a\<rfloor>"] pow2_bridge[of "\<lfloor>log 2 a\<rfloor>"] by simp
  have "log 2 (2 powr (of_int (- 126))) \<le> log 2 a"
    using h a by (intro log_mono) (simp_all only: pow2_bridge, simp_all)
  then have "- 126 \<le> \<lfloor>log 2 a\<rfloor>" by (simp add: le_floor_iff)
  then have "expo a = \<lfloor>log 2 a\<rfloor>" by (simp add: expo_def)
  then show ?thesis using l by simp
qed

lemma expo_subnormal: "0 < a \<Longrightarrow> a < 2 powi (- 126) \<Longrightarrow> expo a = - 126"
proof -
  assume a: "0 < a" and h: "a < 2 powi (- 126)"
  have "a < 2 powr (of_int (- 126))" using h by (simp only: pow2_bridge)
  then have "log 2 a < of_int (- 126)" using a by (simp add: log_less_iff)
  then have "\<lfloor>log 2 a\<rfloor> < - 126" by (simp add: floor_less_iff)
  then show ?thesis by (simp add: expo_def)
qed

lemma expo_ge: "- 126 \<le> expo a"
  by (simp add: expo_def)

lemma expo_mono: "0 < a \<Longrightarrow> a \<le> b \<Longrightarrow> expo a \<le> expo b"
proof -
  assume "0 < a" "a \<le> b"
  then have "log 2 a \<le> log 2 b" by (intro log_mono) simp_all
  then have "\<lfloor>log 2 a\<rfloor> \<le> \<lfloor>log 2 b\<rfloor>" by (rule floor_mono)
  then show ?thesis by (simp add: expo_def)
qed

lemma ulp_pos [simp]: "0 < ulp a"
  by (simp add: ulp_def)

lemma ulp_nonneg [simp]: "0 \<le> ulp a"
  using ulp_pos[of a] by (rule less_imp_le)

lemma ulp_neq0 [simp]: "ulp a \<noteq> 0"
  by (simp add: ulp_def)

lemma pow2_add: "(2::real) powi (m + n) = 2 powi m * 2 powi n"
  by (rule power_int_add) simp

lemma pow2_split: "m + n = k \<Longrightarrow> (2::real) powi k = 2 powi m * 2 powi n"
  using pow2_add[of m n] by simp

lemma ulp_times: "2 ^ 24 * ulp a = 2 powi (expo a + 1)" "2 ^ 23 * ulp a = 2 powi (expo a)"
proof -
  have "(2::real) powi (expo a + 1) = 2 powi 24 * 2 powi (expo a - 23)"
    by (rule pow2_split) simp
  then show "2 ^ 24 * ulp a = 2 powi (expo a + 1)" by (simp add: ulp_def)
  have "(2::real) powi (expo a) = 2 powi 23 * 2 powi (expo a - 23)"
    by (rule pow2_split) simp
  then show "2 ^ 23 * ulp a = 2 powi (expo a)" by (simp add: ulp_def)
qed

lemma rnd_mag_nonneg: "0 \<le> a \<Longrightarrow> 0 \<le> rnd_mag a"
proof -
  assume "0 \<le> a"
  then have "0 \<le> a / ulp a" by simp
  then have "round_even 0 \<le> round_even (a / ulp a)"
    by (rule round_even_mono)
  then show ?thesis by (simp add: rnd_mag_def)
qed

lemma rnd_mag_upper: "0 < a \<Longrightarrow> rnd_mag a \<le> 2 powi (expo a + 1)"
proof -
  assume a: "0 < a"
  have "a \<le> 2 ^ 24 * ulp a" using expo_upper[OF a] unfolding ulp_times by (rule less_imp_le)
  then have "a / ulp a \<le> of_int (2 ^ 24)" by (simp add: pos_divide_le_eq)
  then have "round_even (a / ulp a) \<le> round_even (of_int (2 ^ 24))" by (rule round_even_mono)
  then have "round_even (a / ulp a) \<le> 2 ^ 24" by (simp only: round_even_of_int)
  then have "of_int (round_even (a / ulp a)) \<le> (2 ^ 24 :: real)"
    by (metis of_int_le_iff of_int_numeral of_int_power)
  then have "rnd_mag a \<le> 2 ^ 24 * ulp a"
    unfolding rnd_mag_def by (intro mult_right_mono) simp_all
  then show ?thesis by (simp only: ulp_times)
qed

lemma rnd_mag_lower: "2 powi (expo a) \<le> a \<Longrightarrow> 2 powi (expo a) \<le> rnd_mag a"
proof -
  assume h: "2 powi (expo a) \<le> a"
  then have "2 ^ 23 * ulp a \<le> a" by (simp only: ulp_times)
  then have "of_int (2 ^ 23) \<le> a / ulp a" by (simp add: pos_le_divide_eq)
  then have "round_even (of_int (2 ^ 23)) \<le> round_even (a / ulp a)" by (rule round_even_mono)
  then have "2 ^ 23 \<le> round_even (a / ulp a)" by (simp only: round_even_of_int)
  then have "(2 ^ 23 :: real) \<le> of_int (round_even (a / ulp a))"
    by (metis of_int_le_iff of_int_numeral of_int_power)
  then have "2 ^ 23 * ulp a \<le> rnd_mag a"
    unfolding rnd_mag_def by (intro mult_right_mono) simp_all
  then show ?thesis by (simp only: ulp_times)
qed

lemma expo_normal: "0 < a \<Longrightarrow> - 126 < expo a \<Longrightarrow> 2 powi (expo a) \<le> a"
proof (rule ccontr)
  assume a: "0 < a" and e: "- 126 < expo a" and n: "\<not> 2 powi (expo a) \<le> a"
  have "a < 2 powi (- 126)"
  proof (rule ccontr)
    assume "\<not> a < 2 powi (- 126)"
    then have "2 powi (expo a) \<le> a" by (intro expo_lower) simp
    with n show False ..
  qed
  then have "expo a = - 126" using a by (intro expo_subnormal)
  with e show False by simp
qed

lemma rnd_mag_mono: "0 < a \<Longrightarrow> a \<le> b \<Longrightarrow> rnd_mag a \<le> rnd_mag b"
proof -
  assume a: "0 < a" and ab: "a \<le> b"
  then have b: "0 < b" by simp
  have e: "expo a \<le> expo b" using a ab by (rule expo_mono)
  show ?thesis
  proof (cases "expo a = expo b")
    case True
    then have u: "ulp a = ulp b" by (simp add: ulp_def)
    have "a / ulp b \<le> b / ulp b" using ab by (simp add: divide_right_mono)
    then have "round_even (a / ulp b) \<le> round_even (b / ulp b)" by (rule round_even_mono)
    then show ?thesis unfolding rnd_mag_def u by (intro mult_right_mono) simp_all
  next
    case False
    then have lt: "expo a + 1 \<le> expo b" using e by simp
    have "rnd_mag a \<le> 2 powi (expo a + 1)" using a by (rule rnd_mag_upper)
    also have "\<dots> \<le> 2 powi (expo b)" using lt by (intro power_int_increasing) simp_all
    also have "\<dots> \<le> rnd_mag b"
    proof (rule rnd_mag_lower)
      have "- 126 < expo b" using lt expo_ge[of a] by linarith
      then show "2 powi (expo b) \<le> b" using b by (intro expo_normal)
    qed
    finally show ?thesis .
  qed
qed

lemma rnd_mag_0 [simp]: "rnd_mag 0 = 0"
  by (simp add: rnd_mag_def)

lemma rnd_mag_fixed:
  assumes "0 < r" and "expo r = e" and "r = of_int k * 2 powi (e - 23)"
  shows "rnd_mag r = r"
proof -
  have u: "ulp r = 2 powi (e - 23)" using assms(2) by (simp add: ulp_def)
  have "r / ulp r = of_int k" unfolding u using assms(3) by simp
  then show ?thesis unfolding rnd_mag_def using assms(3) u by simp
qed

lemma rnd_mag_idem: "0 \<le> a \<Longrightarrow> rnd_mag (rnd_mag a) = rnd_mag a"
proof (cases "a = 0")
  case True
  then show ?thesis by simp
next
  case False
  assume "0 \<le> a"
  with False have a: "0 < a" by simp
  define e where "e = expo a"
  define k where "k = round_even (a / ulp a)"
  define r where "r = rnd_mag a"
  have r: "r = of_int k * 2 powi (e - 23)" by (simp add: r_def k_def e_def rnd_mag_def ulp_def)
  have r0: "0 \<le> r" unfolding r_def using a by (intro rnd_mag_nonneg) simp
  have up: "r \<le> 2 powi (e + 1)" unfolding r_def e_def using a by (rule rnd_mag_upper)
  have eg: "- 126 \<le> e" unfolding e_def by (rule expo_ge)
  show ?thesis
  proof (cases "r = 0")
    case True
    then show ?thesis by (simp add: r_def[symmetric])
  next
    case False
    then have rpos: "0 < r" using r0 by simp
    show ?thesis
    proof (cases "r = 2 powi (e + 1)")
      case True
      have "2 powi (e + 1) \<le> r" using True by simp
      moreover have "r < 2 powi (e + 1 + 1)"
        unfolding True by (intro power_int_strict_increasing) simp_all
      ultimately have ex: "expo r = e + 1" using eg by (intro expo_eq) simp_all
      have "(2::real) powi (e + 1) = 2 powi 23 * 2 powi (e + 1 - 23)"
        by (rule pow2_split) simp
      then have "r = of_int (2 ^ 23) * 2 powi (e + 1 - 23)" using True by simp
      then have "rnd_mag r = r" using rpos ex by (intro rnd_mag_fixed)
      then show ?thesis by (simp add: r_def[symmetric])
    next
      case False
      then have lt: "r < 2 powi (e + 1)" using up by simp
      have ex: "expo r = e"
      proof (cases "2 powi e \<le> r")
        case True
        then show ?thesis using lt eg by (intro expo_eq)
      next
        case nle: False
        have "\<not> 2 powi (expo a) \<le> a"
        proof
          assume "2 powi (expo a) \<le> a"
          then have "2 powi (expo a) \<le> rnd_mag a" by (rule rnd_mag_lower)
          then show False using nle by (simp add: e_def r_def)
        qed
        then have "\<not> - 126 < expo a" using expo_normal[OF a] by blast
        then have e126: "e = - 126" using eg by (simp add: e_def)
        then have "r < 2 powi (- 126)" using nle by simp
        then show ?thesis using rpos e126 by (simp add: expo_subnormal)
      qed
      have "rnd_mag r = r" using rpos ex r by (rule rnd_mag_fixed)
      then show ?thesis by (simp add: r_def[symmetric])
    qed
  qed
qed

lemma rnd_mag_grid: "\<exists>k::int. rnd_mag a = of_int k * 2 powi (- 149)"
proof -
  have "0 \<le> expo a + 126" using expo_ge[of a] by simp
  have "(2::real) powi (expo a - 23) = 2 powi (expo a + 126) * 2 powi (- 149)"
    by (rule pow2_split) simp
  also have "(2::real) powi (expo a + 126) = of_int (2 ^ nat (expo a + 126))"
    using \<open>0 \<le> expo a + 126\<close> by (simp add: power_int_def)
  finally have "rnd_mag a =
      of_int (round_even (a / ulp a) * 2 ^ nat (expo a + 126)) * 2 powi (- 149)"
    by (simp add: rnd_mag_def ulp_def)
  then show ?thesis by blast
qed

lemma rnd_mag_eval:
  assumes "2 powi e \<le> a" and "a < 2 powi (e + 1)" and "- 126 \<le> e"
  shows "rnd_mag a = of_int (round_even (a / 2 powi (e - 23))) * 2 powi (e - 23)"
  using expo_eq[OF assms] by (simp add: rnd_mag_def ulp_def)

subsection \<open>Rounding is monotone and idempotent\<close>

lemma rnd_real_0 [simp]: "rnd_real 0 = 0"
  by (simp add: rnd_real_def)

lemma rnd_real_minus: "rnd_real (- x) = - rnd_real x"
  by (simp add: rnd_real_def sgn_minus)

lemma rnd_real_pos: "0 < x \<Longrightarrow> rnd_real x = rnd_mag x"
  by (simp add: rnd_real_def)

lemma rnd_real_neg: "x < 0 \<Longrightarrow> rnd_real x = - rnd_mag (- x)"
  by (simp add: rnd_real_def)

lemma rnd_real_mono: "x \<le> y \<Longrightarrow> rnd_real x \<le> rnd_real y"
proof -
  assume xy: "x \<le> y"
  consider "0 < x" | "y < 0" | "x \<le> 0 \<and> 0 \<le> y" by linarith
  then show ?thesis
  proof cases
    case 1
    then have "0 < y" using xy by simp
    then show ?thesis using 1 xy by (simp add: rnd_real_pos rnd_mag_mono)
  next
    case 2
    then have "x < 0" using xy by simp
    moreover have "rnd_mag (- y) \<le> rnd_mag (- x)" using 2 xy by (intro rnd_mag_mono) simp_all
    ultimately show ?thesis using 2 by (simp add: rnd_real_neg)
  next
    case 3
    have "rnd_real x \<le> 0"
    proof (cases "x = 0")
      case True then show ?thesis by simp
    next
      case False
      then have "x < 0" using 3 by simp
      then show ?thesis using rnd_mag_nonneg[of "- x"] by (simp add: rnd_real_neg)
    qed
    moreover have "0 \<le> rnd_real y"
    proof (cases "y = 0")
      case True then show ?thesis by simp
    next
      case False
      then have "0 < y" using 3 by simp
      then show ?thesis using rnd_mag_nonneg[of y] by (simp add: rnd_real_pos)
    qed
    ultimately show ?thesis by linarith
  qed
qed

lemma rnd_real_idem [simp]: "rnd_real (rnd_real x) = rnd_real x"
proof -
  consider "0 < x" | "x < 0" | "x = 0" by linarith
  then show ?thesis
  proof cases
    case 1
    have n: "0 \<le> rnd_mag x" using 1 by (intro rnd_mag_nonneg) simp
    show ?thesis
    proof (cases "rnd_mag x = 0")
      case True then show ?thesis using 1 by (simp add: rnd_real_pos)
    next
      case False
      then have "0 < rnd_mag x" using n by simp
      then show ?thesis using 1 by (simp add: rnd_real_pos rnd_mag_idem)
    qed
  next
    case 2
    have n: "0 \<le> rnd_mag (- x)" using 2 by (intro rnd_mag_nonneg) simp
    show ?thesis
    proof (cases "rnd_mag (- x) = 0")
      case True then show ?thesis using 2 by (simp add: rnd_real_neg)
    next
      case False
      then have "- rnd_mag (- x) < 0" using n by simp
      then show ?thesis using 2 by (simp add: rnd_real_neg rnd_mag_idem)
    qed
  next
    case 3 then show ?thesis by simp
  qed
qed

lemma rnd_real_grid: "\<exists>k::int. rnd_real x = of_int k * 2 powi (- 149)"
proof -
  obtain k :: int where k: "rnd_mag \<bar>x\<bar> = of_int k * 2 powi (- 149)"
    using rnd_mag_grid by blast
  consider "0 < x" | "x < 0" | "x = 0" by linarith
  then show ?thesis
  proof cases
    case 1 then show ?thesis using k by (auto simp: rnd_real_def)
  next
    case 2
    then have "rnd_real x = of_int (- k) * 2 powi (- 149)" using k by (simp add: rnd_real_def)
    then show ?thesis by blast
  next
    case 3
    then have "rnd_real x = of_int 0 * 2 powi (- 149)" by simp
    then show ?thesis by blast
  qed
qed

lemma rnd_real_pow2: "- 126 \<le> k \<Longrightarrow> rnd_real (2 powi k) = 2 powi k"
proof -
  assume k: "- 126 \<le> k"
  have p: "(0::real) < 2 powi k" by simp
  have e: "expo (2 powi k) = k"
    using k by (intro expo_eq) (simp_all add: power_int_strict_increasing)
  have "(2::real) powi k = 2 powi 23 * 2 powi (k - 23)" by (rule pow2_split) simp
  then have "(2::real) powi k = of_int (2 ^ 23) * 2 powi (k - 23)" by simp
  then have "rnd_mag (2 powi k) = 2 powi k" using p e by (intro rnd_mag_fixed)
  then show ?thesis using p by (simp add: rnd_real_pos)
qed

lemma is_f32_rnd_real: "\<bar>rnd_real x\<bar> < 2 ^ 128 \<Longrightarrow> is_f32 (rnd_real x)"
  by (simp add: is_f32_def)

lemma rnd_fixed: "is_f32 r \<Longrightarrow> rnd r = Fin r"
  by (auto simp: is_f32_def rnd_def Let_def)

lemma rnd_cases:
  "(rnd x = PInf \<and> 2 ^ 128 \<le> rnd_real x) \<or> (rnd x = NInf \<and> rnd_real x \<le> - (2 ^ 128))
   \<or> (rnd x = Fin (rnd_real x) \<and> is_f32 (rnd_real x))"
  by (auto simp: rnd_def Let_def is_f32_def)

lemma val_rnd_mono: "x \<le> y \<Longrightarrow> val (rnd x) \<le> val (rnd y)"
  using rnd_real_mono[of x y] by (auto simp: rnd_def Let_def)

lemma rnd_not_NaN [simp]: "rnd x \<noteq> NaN"
  by (simp add: rnd_def Let_def)

subsection \<open>Sums and products of values that are at most zero\<close>

lemma is_f32_D:
  "is_f32 r \<Longrightarrow> rnd_real r = r" "is_f32 r \<Longrightarrow> - (2 ^ 128) < r" "is_f32 r \<Longrightarrow> r < 2 ^ 128"
  by (simp_all add: is_f32_def abs_less_iff)

lemma low_cases:
  "low v \<Longrightarrow> (v = NInf \<Longrightarrow> P) \<Longrightarrow> (\<And>r. v = Fin r \<Longrightarrow> r \<le> 0 \<Longrightarrow> is_f32 r \<Longrightarrow> P) \<Longrightarrow> P"
  by (auto simp: low_def)

lemma low_rnd: "x \<le> 0 \<Longrightarrow> low (rnd x)"
proof -
  assume "x \<le> 0"
  then have "rnd_real x \<le> 0" using rnd_real_mono[of x 0] by simp
  then show ?thesis using rnd_cases[of x] by (auto simp: low_def)
qed

lemma low_zero: "low (Fin 0)"
  by (simp add: low_def is_f32_def)

lemma val_low: "low v \<Longrightarrow> val v \<le> 0"
  by (auto simp: low_def)

lemma val_low_lower: "low v \<Longrightarrow> - (2 ^ 128) \<le> val v"
  using is_f32_D(2) by (auto simp: low_def intro: less_imp_le)

lemma low_fadd: "low a \<Longrightarrow> low b \<Longrightarrow> low (fadd a b)"
proof (erule low_cases; erule low_cases)
  fix r s assume "a = Fin r" "r \<le> 0" "b = Fin s" "s \<le> 0"
  then show "low (fadd a b)" by (simp add: low_rnd)
qed (simp_all add: low_def)

lemma val_fadd_low_le: "low a \<Longrightarrow> low b \<Longrightarrow> val (fadd a b) \<le> val b"
proof (erule low_cases; erule low_cases)
  fix r s assume a: "a = Fin r" "r \<le> 0" and b: "b = Fin s" "is_f32 s"
  have "val (rnd (r + s)) \<le> val (rnd s)" using a(2) by (intro val_rnd_mono) simp
  then show "val (fadd a b) \<le> val b" using a b by (simp add: rnd_fixed)
next
  fix s assume "a = NInf" "b = Fin s" "is_f32 s"
  then show "val (fadd a b) \<le> val b" using is_f32_D(2)[of s] by simp
qed simp_all

lemma fadd_zero_low: "low b \<Longrightarrow> fadd (Fin 0) b = b"
  by (erule low_cases) (simp_all add: rnd_fixed)

lemma low_fmul_pos: "low a \<Longrightarrow> 0 < t \<Longrightarrow> low (fmul a (Fin t))"
proof (erule low_cases)
  fix r assume "a = Fin r" "r \<le> 0" "0 < t"
  then show "low (fmul a (Fin t))" by (simp add: low_rnd mult_nonpos_nonneg)
qed (simp add: low_def)

lemma val_fmul_pos_mono:
  "low a \<Longrightarrow> low b \<Longrightarrow> val a \<le> val b \<Longrightarrow> 0 < t \<Longrightarrow>
   val (fmul a (Fin t)) \<le> val (fmul b (Fin t))"
proof (erule low_cases; erule low_cases)
  fix r s assume "a = Fin r" "b = Fin s" "val a \<le> val b" "0 < t"
  then show "val (fmul a (Fin t)) \<le> val (fmul b (Fin t))"
    by (simp add: val_rnd_mono)
next
  fix s assume a: "a = NInf" and b: "b = Fin s" "s \<le> 0" and t: "0 < t"
  have "low (rnd (s * t))" using b(2) t by (intro low_rnd) (simp add: mult_nonpos_nonneg)
  then have "- (2 ^ 128) \<le> val (rnd (s * t))" by (rule val_low_lower)
  then show "val (fmul a (Fin t)) \<le> val (fmul b (Fin t))" using a b t by simp
next
  fix r assume "a = Fin r" "is_f32 r" "b = NInf" "val a \<le> val b"
  then have False using is_f32_D(2)[of r] by simp
  then show "val (fmul a (Fin t)) \<le> val (fmul b (Fin t))" ..
qed simp_all

text \<open>Adding a value that is \<open>low\<close> to a binary32 number does not raise it.\<close>

lemma fadd_low_right:
  assumes "is_f32 y" and "low m"
  shows "fadd (Fin y) m = NInf \<or> (\<exists>ny. fadd (Fin y) m = Fin ny \<and> is_f32 ny \<and> ny \<le> y)"
proof (rule low_cases[OF assms(2)])
  assume "m = NInf" then show ?thesis by simp
next
  fix r assume m: "m = Fin r" "r \<le> 0"
  have "rnd_real (y + r) \<le> rnd_real y" using m(2) by (intro rnd_real_mono) simp
  then have le: "rnd_real (y + r) \<le> y" using assms(1) by (simp add: is_f32_D)
  then have "rnd_real (y + r) < 2 ^ 128" using is_f32_D(3)[OF assms(1)] by linarith
  then show ?thesis using rnd_cases[of "y + r"] le m by auto
qed

lemma val_fadd_right_mono:
  assumes "is_f32 y" and "low a" and "low b" and "val a \<le> val b"
  shows "val (fadd (Fin y) a) \<le> val (fadd (Fin y) b)"
proof (rule low_cases[OF assms(2)]; rule low_cases[OF assms(3)])
  fix r s assume "a = Fin r" "b = Fin s"
  then show ?thesis using assms(4) by (simp add: val_rnd_mono)
next
  fix s assume a: "a = NInf" and b: "b = Fin s" "s \<le> 0"
  from fadd_low_right[OF assms(1,3)]
  have "- (2 ^ 128) \<le> val (fadd (Fin y) b)" using is_f32_D(2) by (auto intro: less_imp_le)
  then show ?thesis using a by simp
next
  fix r assume "a = Fin r" "is_f32 r" "b = NInf"
  then have False using assms(4) is_f32_D(2)[of r] by simp
  then show ?thesis ..
qed simp_all

lemma is_f32_rnd_between:
  assumes "is_f32 a" and "is_f32 b" and "a \<le> x" and "x \<le> b"
  shows "is_f32 (rnd_real x)" and "a \<le> rnd_real x" and "rnd_real x \<le> b"
proof -
  show l: "a \<le> rnd_real x" using rnd_real_mono[OF assms(3)] assms(1) by (simp add: is_f32_D)
  show u: "rnd_real x \<le> b" using rnd_real_mono[OF assms(4)] assms(2) by (simp add: is_f32_D)
  have "- (2 ^ 128) < rnd_real x" using l is_f32_D(2)[OF assms(1)] by linarith
  moreover have "rnd_real x < 2 ^ 128" using u is_f32_D(3)[OF assms(2)] by linarith
  ultimately show "is_f32 (rnd_real x)" by (simp add: is_f32_def abs_less_iff)
qed

lemma is_f32_0: "is_f32 0"
  by (simp add: is_f32_def)

subsection \<open>Numbers that are binary32 numbers\<close>

lemma is_f32_I:
  assumes "2 powi e \<le> \<bar>r\<bar>" and "\<bar>r\<bar> < 2 powi (e + 1)" and "- 126 \<le> e" and "e \<le> 127"
    and "\<bar>r\<bar> = of_int k * 2 powi (e - 23)"
  shows "is_f32 r"
proof -
  have p: "0 < \<bar>r\<bar>" using assms(1) by (rule less_le_trans[rotated]) simp
  have ex: "expo \<bar>r\<bar> = e" using assms(1-3) by (rule expo_eq)
  have m: "rnd_mag \<bar>r\<bar> = \<bar>r\<bar>" using p ex assms(5) by (rule rnd_mag_fixed)
  have "rnd_real r = sgn r * \<bar>r\<bar>" by (simp add: rnd_real_def m)
  then have f: "rnd_real r = r" by (simp add: sgn_mult_abs)
  have "(2::real) powi (e + 1) \<le> 2 powi 128" using assms(4) by (intro power_int_increasing) simp_all
  then have "\<bar>r\<bar> < 2 ^ 128" using assms(2) by simp
  then show ?thesis using f by (simp add: is_f32_def)
qed

lemma rnd_real_eval:
  assumes "2 powi e \<le> a" and "a < 2 powi (e + 1)" and "- 126 \<le> e"
  shows "rnd_real a = of_int (round_even (a / 2 powi (e - 23))) * 2 powi (e - 23)"
    and "rnd_real (- a) = - (of_int (round_even (a / 2 powi (e - 23))) * 2 powi (e - 23))"
proof -
  have p: "0 < a" using assms(1) by (rule less_le_trans[rotated]) simp
  show "rnd_real a = of_int (round_even (a / 2 powi (e - 23))) * 2 powi (e - 23)"
    using p rnd_mag_eval[OF assms] by (simp add: rnd_real_pos)
  then show "rnd_real (- a) = - (of_int (round_even (a / 2 powi (e - 23))) * 2 powi (e - 23))"
    by (simp add: rnd_real_minus)
qed

lemma is_f32_minus: "is_f32 r \<Longrightarrow> is_f32 (- r)"
  by (simp add: is_f32_def rnd_real_minus)

lemma is_f32_1: "is_f32 1" by (rule is_f32_I[of 0 _ "2 ^ 23"]) simp_all

lemma is_f32_2: "is_f32 2" by (rule is_f32_I[of 1 _ "2 ^ 23"]) simp_all

lemma is_f32_3: "is_f32 3" by (rule is_f32_I[of 1 _ "3 * 2 ^ 22"]) simp_all

lemma is_f32_4: "is_f32 4" by (rule is_f32_I[of 2 _ "2 ^ 23"]) simp_all

lemma is_f32_6: "is_f32 6" by (rule is_f32_I[of 2 _ "3 * 2 ^ 22"]) simp_all

lemma is_f32_8: "is_f32 8" by (rule is_f32_I[of 3 _ "2 ^ 23"]) simp_all

lemma is_f32_10: "is_f32 10" by (rule is_f32_I[of 3 _ "5 * 2 ^ 21"]) simp_all

lemma is_f32_gravity: "is_f32 (10276045 / 2 ^ 20)" by (rule is_f32_I[of 3 _ "10276045"]) simp_all

subsection \<open>NaN propagates\<close>

lemma fadd_NaN_right [simp]: "fadd a NaN = NaN"
  by (cases a) simp_all

lemma fmul_NaN_right [simp]: "fmul a NaN = NaN"
  by (cases a) simp_all

lemma fdiv_NaN_left [simp]: "fdiv NaN b = NaN"
  by simp

section \<open>Dropping the capsule on flat terrain\<close>

subsection \<open>One tick and many ticks\<close>

lemma ticks_f32_0: "ticks_f32 0 dt q c = c"
  by (simp add: ticks_f32_def)

lemma ticks_f32_Suc: "ticks_f32 (Suc n) dt q c = update_f32 dt q (ticks_f32 n dt q c)"
  by (simp add: ticks_f32_def)

lemma ticks_f32_add: "ticks_f32 (m + n) dt q c = ticks_f32 m dt q (ticks_f32 n dt q c)"
  by (simp add: ticks_f32_def funpow_add)

lemma half_height:
  assumes "is_f32 H" and "0 \<le> H"
  shows "fdiv (Fin H) (Fin 2) = Fin (rnd_real (H / 2))"
    and "is_f32 (rnd_real (H / 2))" and "0 \<le> rnd_real (H / 2)"
proof -
  have b: "0 \<le> H / 2" "H / 2 \<le> H" using assms(2) by simp_all
  show f: "is_f32 (rnd_real (H / 2))" by (rule is_f32_rnd_between(1)[OF is_f32_0 assms(1) b])
  show "0 \<le> rnd_real (H / 2)" by (rule is_f32_rnd_between(2)[OF is_f32_0 assms(1) b])
  show "fdiv (Fin H) (Fin 2) = Fin (rnd_real (H / 2))"
    using rnd_cases[of "H / 2"] f is_f32_D(2,3)[OF f] by auto
qed

lemma snap_position:
  assumes "is_f32 E" and "is_f32 y0" and "is_f32 hh" and "0 \<le> hh" and "E + hh < y0"
  shows "fadd (Fin E) (Fin hh) = Fin (rnd_real (E + hh))"
    and "is_f32 (rnd_real (E + hh))" and "rnd_real (E + hh) \<le> y0"
proof -
  have b: "E \<le> E + hh" "E + hh \<le> y0" using assms(4,5) by simp_all
  show f: "is_f32 (rnd_real (E + hh))" by (rule is_f32_rnd_between(1)[OF assms(1,2) b])
  show "rnd_real (E + hh) \<le> y0" by (rule is_f32_rnd_between(3)[OF assms(1,2) b])
  show "fadd (Fin E) (Fin hh) = Fin (rnd_real (E + hh))"
    using rnd_cases[of "E + hh"] f is_f32_D(2,3)[OF f] by auto
qed

lemma low_gravity_step: "0 < t \<Longrightarrow> low (fmul gravity_f32 (Fin t))"
  by (simp add: gravity_f32_def low_rnd mult_nonpos_nonneg)

text \<open>
  One update over flat terrain from a state whose height is a binary32 number and whose
  velocity is \<open>low\<close>: it snaps, or it stays strictly above the terrain, no higher than
  before and no higher than one unabsorbed decrement would leave it.
\<close>

lemma update_f32_step:
  assumes E: "is_f32 E" and H: "is_f32 H" "0 \<le> H" and y0: "is_f32 y0" "E + rnd_real (H / 2) < y0"
    and t: "0 < t"
    and c: "height_f32 c = Fin H" "posY_f32 c = Fin y" "is_f32 y" "y \<le> y0" "low (velocityY_f32 c)"
  shows "settled E H (update_f32 (Fin t) (flatTerrain_f32 (Fin E)) c)
     \<or> (\<exists>y'. falling E H y0 (update_f32 (Fin t) (flatTerrain_f32 (Fin E)) c) y' \<and> y' \<le> y
              \<and> y' \<le> val (fadd (Fin y) (fmul (fmul gravity_f32 (Fin t)) (Fin t))))"
proof -
  define hh where "hh = rnd_real (H / 2)"
  define D where "D = fmul gravity_f32 (Fin t)"
  define V where "V = fadd (velocityY_f32 c) D"
  define M where "M = fmul V (Fin t)"
  define newY where "newY = fadd (Fin y) M"
  define c1 where "c1 = c\<lparr>velocityY_f32 := V\<rparr>"
  note hd = half_height[OF H, folded hh_def]
  note sp = snap_position[OF E y0(1) hd(2,3) y0(2)[folded hh_def]]
  have lD: "low D" unfolding D_def using t by (rule low_gravity_step)
  have lV: "low V" unfolding V_def using c(5) lD by (rule low_fadd)
  have vV: "val V \<le> val D" unfolding V_def using c(5) lD by (rule val_fadd_low_le)
  have lM: "low M" unfolding M_def using lV t by (rule low_fmul_pos)
  have lDel: "low (fmul D (Fin t))" using lD t by (rule low_fmul_pos)
  have vM: "val M \<le> val (fmul D (Fin t))"
    unfolding M_def using lV lD vV t by (rule val_fmul_pos_mono)
  have vN: "val newY \<le> val (fadd (Fin y) (fmul D (Fin t)))"
    unfolding newY_def using c(3) lM lDel vM by (rule val_fadd_right_mono)
  have r1: "rnd (H / 2) = Fin hh" using hd(1) by simp
  have r2: "rnd (E + hh) = Fin (rnd_real (E + hh))" using sp(1) by simp
  have upd: "update_f32 (Fin t) (flatTerrain_f32 (Fin E)) c =
      (if fle (fsub newY (Fin hh)) (Fin E)
       then (c1\<lparr>velocityY_f32 := Fin 0\<rparr>)\<lparr>posY_f32 := Fin (rnd_real (E + hh))\<rparr>
       else c1\<lparr>posY_f32 := newY\<rparr>)"
    by (simp add: update_f32_def Let_def flatTerrain_f32_def c(1,2) r1 r2
        c1_def newY_def M_def V_def D_def)
  have snap: "settled E H ((c1\<lparr>velocityY_f32 := Fin 0\<rparr>)\<lparr>posY_f32 := Fin (rnd_real (E + hh))\<rparr>)"
    by (simp add: settled_def c1_def c(1) hh_def)
  from fadd_low_right[OF c(3) lM, folded newY_def]
  show ?thesis
  proof
    assume "newY = NInf"
    then have "fle (fsub newY (Fin hh)) (Fin E)" by (simp add: fsub_def)
    then show ?thesis using snap unfolding upd by simp
  next
    assume "\<exists>ny. newY = Fin ny \<and> is_f32 ny \<and> ny \<le> y"
    then obtain ny where ny: "newY = Fin ny" "is_f32 ny" "ny \<le> y" by blast
    show ?thesis
    proof (cases "fle (fsub newY (Fin hh)) (Fin E)")
      case True
      then show ?thesis using snap unfolding upd by simp
    next
      case False
      have above: "E + hh < ny"
      proof (rule ccontr)
        assume "\<not> E + hh < ny"
        then have "ny - hh \<le> E" by simp
        then have "rnd_real (ny - hh) \<le> rnd_real E" by (rule rnd_real_mono)
        then have le: "rnd_real (ny - hh) \<le> E" using E by (simp add: is_f32_D)
        have "fle (rnd (ny - hh)) (Fin E)"
          using rnd_cases[of "ny - hh"] le is_f32_D(3)[OF E] by auto
        then show False using False ny(1) by (simp add: fsub_def)
      qed
      have "falling E H y0 (c1\<lparr>posY_f32 := newY\<rparr>) ny"
        using ny above c(1,4) lV by (simp add: falling_def c1_def hh_def)
      moreover have "ny \<le> val (fadd (Fin y) (fmul (fmul gravity_f32 (Fin t)) (Fin t)))"
        using vN ny(1) by (simp add: D_def)
      ultimately show ?thesis using False ny(3) unfolding upd by auto
    qed
  qed
qed

lemma falling_or_settled:
  assumes E: "is_f32 E" and H: "is_f32 H" "0 \<le> H" and y0: "is_f32 y0" "E + rnd_real (H / 2) < y0"
    and t: "0 < t"
    and c: "posY_f32 c = Fin y0" "velocityY_f32 c = Fin 0" "height_f32 c = Fin H"
  shows "settled E H (ticks_f32 n (Fin t) (flatTerrain_f32 (Fin E)) c)
       \<or> (\<exists>y. falling E H y0 (ticks_f32 n (Fin t) (flatTerrain_f32 (Fin E)) c) y)"
proof (induction n)
  case 0
  have "falling E H y0 c y0" using c y0 by (simp add: falling_def low_zero)
  then show ?case by (auto simp: ticks_f32_0)
next
  case (Suc n)
  let ?s = "ticks_f32 n (Fin t) (flatTerrain_f32 (Fin E)) c"
  note sp = snap_position[OF E y0(1) half_height(2,3)[OF H] y0(2)]
  from Suc show ?case
  proof
    assume s: "settled E H ?s"
    have "settled E H (update_f32 (Fin t) (flatTerrain_f32 (Fin E)) ?s)
     \<or> (\<exists>y'. falling E H y0 (update_f32 (Fin t) (flatTerrain_f32 (Fin E)) ?s) y'
              \<and> y' \<le> rnd_real (E + rnd_real (H / 2))
              \<and> y' \<le> val (fadd (Fin (rnd_real (E + rnd_real (H / 2))))
                              (fmul (fmul gravity_f32 (Fin t)) (Fin t))))"
      using s by (intro update_f32_step[OF E H y0 t]) (simp_all add: settled_def sp low_zero)
    then show ?thesis by (auto simp: ticks_f32_Suc)
  next
    assume "\<exists>y. falling E H y0 ?s y"
    then obtain y where f: "falling E H y0 ?s y" by blast
    have "settled E H (update_f32 (Fin t) (flatTerrain_f32 (Fin E)) ?s)
     \<or> (\<exists>y'. falling E H y0 (update_f32 (Fin t) (flatTerrain_f32 (Fin E)) ?s) y' \<and> y' \<le> y
              \<and> y' \<le> val (fadd (Fin y) (fmul (fmul gravity_f32 (Fin t)) (Fin t))))"
      using f by (intro update_f32_step[OF E H y0 t]) (simp_all add: falling_def)
    then show ?thesis by (auto simp: ticks_f32_Suc)
  qed
qed

lemma settled_stays:
  assumes E: "is_f32 E" and H: "is_f32 H" "0 \<le> H" and y0: "is_f32 y0" "E + rnd_real (H / 2) < y0"
    and t: "0 < t" and na: "not_absorbed E H y0 t"
    and s: "settled E H c"
  shows "settled E H (update_f32 (Fin t) (flatTerrain_f32 (Fin E)) c)"
proof -
  note sp = snap_position[OF E y0(1) half_height(2,3)[OF H] y0(2)]
  let ?ys = "rnd_real (E + rnd_real (H / 2))"
  have "settled E H (update_f32 (Fin t) (flatTerrain_f32 (Fin E)) c)
     \<or> (\<exists>y'. falling E H y0 (update_f32 (Fin t) (flatTerrain_f32 (Fin E)) c) y' \<and> y' \<le> ?ys
              \<and> y' \<le> val (fadd (Fin ?ys) (fmul (fmul gravity_f32 (Fin t)) (Fin t))))"
    using s by (intro update_f32_step[OF E H y0 t]) (simp_all add: settled_def sp low_zero)
  then show ?thesis
  proof
    assume "\<exists>y'. falling E H y0 (update_f32 (Fin t) (flatTerrain_f32 (Fin E)) c) y' \<and> y' \<le> ?ys
              \<and> y' \<le> val (fadd (Fin ?ys) (fmul (fmul gravity_f32 (Fin t)) (Fin t)))"
    then obtain y' where y': "falling E H y0 (update_f32 (Fin t) (flatTerrain_f32 (Fin E)) c) y'"
      "y' \<le> val (fadd (Fin ?ys) (fmul (fmul gravity_f32 (Fin t)) (Fin t)))" by blast
    have "val (fadd (Fin ?ys) (fmul (fmul gravity_f32 (Fin t)) (Fin t))) < ?ys"
      using na sp(2,3) by (simp add: not_absorbed_def)
    then have lt: "y' < ?ys" using y'(2) by linarith
    have f: "is_f32 y'" "E + rnd_real (H / 2) < y'" using y'(1) by (simp_all add: falling_def)
    have "?ys \<le> rnd_real y'" using f(2) by (intro rnd_real_mono) simp
    then have "?ys \<le> y'" using f(1) by (simp add: is_f32_D)
    then show ?thesis using lt by simp
  qed
qed

lemma f32_grid_gap:
  assumes "is_f32 a" and "is_f32 b" and "a < b"
  shows "a \<le> b - 2 powi (- 149)"
proof -
  obtain k :: int where k: "rnd_real a = of_int k * 2 powi (- 149)" using rnd_real_grid by blast
  obtain l :: int where l: "rnd_real b = of_int l * 2 powi (- 149)" using rnd_real_grid by blast
  have a: "a = of_int k * 2 powi (- 149)" and b: "b = of_int l * 2 powi (- 149)"
    using k l assms(1,2) by (simp_all add: is_f32_D)
  have u: "(0::real) < 2 powi (- 149)" by simp
  have "of_int k * 2 powi (- 149) < of_int l * (2::real) powi (- 149)" using assms(3) a b by simp
  then have "(of_int k :: real) < of_int l" using u by (simp only: mult_less_cancel_right_pos)
  then have "k + 1 \<le> l" by simp
  then have "(of_int k :: real) + 1 \<le> of_int l" by (metis of_int_1 of_int_add of_int_le_iff)
  then have "(of_int k + 1) * 2 powi (- 149) \<le> of_int l * (2::real) powi (- 149)"
    using u by (simp only: mult_le_cancel_right_pos)
  then show ?thesis unfolding a b by (simp add: algebra_simps)
qed

lemma down_by_steps:
  fixes u :: real
  assumes "y' \<le> y - u" and "y \<le> y0 - real n * u"
  shows "y' \<le> y0 - real (Suc n) * u"
  using assms by (simp add: algebra_simps)

lemma falling_progress:
  assumes E: "is_f32 E" and H: "is_f32 H" "0 \<le> H" and y0: "is_f32 y0" "E + rnd_real (H / 2) < y0"
    and t: "0 < t" and na: "not_absorbed E H y0 t"
    and c: "posY_f32 c = Fin y0" "velocityY_f32 c = Fin 0" "height_f32 c = Fin H"
  shows "(\<exists>k\<le>n. settled E H (ticks_f32 k (Fin t) (flatTerrain_f32 (Fin E)) c))
       \<or> (\<exists>y. falling E H y0 (ticks_f32 n (Fin t) (flatTerrain_f32 (Fin E)) c) y
              \<and> y \<le> y0 - real n * 2 powi (- 149))"
proof (induction n)
  case 0
  have "falling E H y0 c y0" using c y0 by (simp add: falling_def low_zero)
  then show ?case by (auto simp: ticks_f32_0)
next
  case (Suc n)
  let ?s = "ticks_f32 n (Fin t) (flatTerrain_f32 (Fin E)) c"
  from Suc show ?case
  proof
    assume "\<exists>k\<le>n. settled E H (ticks_f32 k (Fin t) (flatTerrain_f32 (Fin E)) c)"
    then show ?thesis using le_Suc_eq by blast
  next
    assume "\<exists>y. falling E H y0 ?s y \<and> y \<le> y0 - real n * 2 powi (- 149)"
    then obtain y where f: "falling E H y0 ?s y" and b: "y \<le> y0 - real n * 2 powi (- 149)" by blast
    have fy: "is_f32 y" "E + rnd_real (H / 2) < y" "y \<le> y0" using f by (simp_all add: falling_def)
    have "rnd_real (E + rnd_real (H / 2)) \<le> rnd_real y" using fy(2) by (intro rnd_real_mono) simp
    then have "rnd_real (E + rnd_real (H / 2)) \<le> y" using fy(1) by (simp add: is_f32_D)
    then have dec: "val (fadd (Fin y) (fmul (fmul gravity_f32 (Fin t)) (Fin t))) < y"
      using na fy(1,3) by (simp add: not_absorbed_def)
    have "settled E H (update_f32 (Fin t) (flatTerrain_f32 (Fin E)) ?s)
     \<or> (\<exists>y'. falling E H y0 (update_f32 (Fin t) (flatTerrain_f32 (Fin E)) ?s) y' \<and> y' \<le> y
              \<and> y' \<le> val (fadd (Fin y) (fmul (fmul gravity_f32 (Fin t)) (Fin t))))"
      using f by (intro update_f32_step[OF E H y0 t]) (simp_all add: falling_def)
    then show ?thesis
    proof
      assume "settled E H (update_f32 (Fin t) (flatTerrain_f32 (Fin E)) ?s)"
      then have "settled E H (ticks_f32 (Suc n) (Fin t) (flatTerrain_f32 (Fin E)) c)"
        by (simp add: ticks_f32_Suc)
      then show ?thesis by blast
    next
      assume "\<exists>y'. falling E H y0 (update_f32 (Fin t) (flatTerrain_f32 (Fin E)) ?s) y' \<and> y' \<le> y
              \<and> y' \<le> val (fadd (Fin y) (fmul (fmul gravity_f32 (Fin t)) (Fin t)))"
      then obtain y' where y': "falling E H y0 (update_f32 (Fin t) (flatTerrain_f32 (Fin E)) ?s) y'"
        "y' \<le> val (fadd (Fin y) (fmul (fmul gravity_f32 (Fin t)) (Fin t)))" by blast
      have "y' < y" using y'(2) dec by linarith
      moreover have "is_f32 y'" using y'(1) by (simp add: falling_def)
      ultimately have "y' \<le> y - 2 powi (- 149)" using fy(1) by (intro f32_grid_gap)
      then have "y' \<le> y0 - real (Suc n) * 2 powi (- 149)" using b by (rule down_by_steps)
      then show ?thesis using y'(1) by (auto simp: ticks_f32_Suc)
    qed
  qed
qed

lemma settled_ticks:
  assumes E: "is_f32 E" and H: "is_f32 H" "0 \<le> H" and y0: "is_f32 y0" "E + rnd_real (H / 2) < y0"
    and t: "0 < t" and na: "not_absorbed E H y0 t"
    and s: "settled E H c"
  shows "settled E H (ticks_f32 n (Fin t) (flatTerrain_f32 (Fin E)) c)"
  by (induction n) (simp_all add: ticks_f32_0 ticks_f32_Suc s settled_stays[OF E H y0 t na])

lemma eventually_settled:
  assumes E: "is_f32 E" and H: "is_f32 H" "0 \<le> H" and y0: "is_f32 y0" "E + rnd_real (H / 2) < y0"
    and t: "0 < t" and na: "not_absorbed E H y0 t"
    and c: "posY_f32 c = Fin y0" "velocityY_f32 c = Fin 0" "height_f32 c = Fin H"
  shows "\<exists>N. \<forall>n\<ge>N. settled E H (ticks_f32 n (Fin t) (flatTerrain_f32 (Fin E)) c)"
proof -
  have u: "(0::real) < 2 powi (- 149)" by simp
  obtain n :: nat where n: "(y0 - E - rnd_real (H / 2)) / 2 powi (- 149) < real n"
    using reals_Archimedean2 by blast
  then have n': "y0 - E - rnd_real (H / 2) < real n * 2 powi (- 149)"
    using u by (simp only: pos_divide_less_eq)
  have "\<exists>k\<le>n. settled E H (ticks_f32 k (Fin t) (flatTerrain_f32 (Fin E)) c)"
  proof (rule ccontr)
    assume "\<not> ?thesis"
    with falling_progress[OF E H y0 t na c, of n]
    obtain y where y: "falling E H y0 (ticks_f32 n (Fin t) (flatTerrain_f32 (Fin E)) c) y"
      "y \<le> y0 - real n * 2 powi (- 149)" by blast
    have "E + rnd_real (H / 2) < y" using y(1) by (simp add: falling_def)
    then show False using y(2) n' by linarith
  qed
  then obtain k where k: "settled E H (ticks_f32 k (Fin t) (flatTerrain_f32 (Fin E)) c)" by blast
  have "\<forall>n\<ge>k. settled E H (ticks_f32 n (Fin t) (flatTerrain_f32 (Fin E)) c)"
  proof (intro allI impI)
    fix m assume "k \<le> m"
    then obtain j where "m = j + k" using le_Suc_ex by (metis add.commute)
    then show "settled E H (ticks_f32 m (Fin t) (flatTerrain_f32 (Fin E)) c)"
      using settled_ticks[OF E H y0 t na k, of j] by (simp add: ticks_f32_add)
  qed
  then show ?thesis by blast
qed

subsection \<open>The snapped position can lie below the terrain\<close>

lemma rnd_gravity: "rnd (- (10276045 / 1048576)) = Fin (- (10276045 / 1048576))"
  using rnd_fixed[OF is_f32_minus[OF is_f32_gravity]] by simp

lemma rnd_2: "rnd 2 = Fin 2"
  by (rule rnd_fixed[OF is_f32_2])

lemma rnd_vel_pos: "rnd (- (7130317 / 1048576)) = Fin (- (7130317 / 1048576))"
proof -
  have "is_f32 (7130317 / 1048576)" by (rule is_f32_I[of 2 _ "14260634"]) simp_all
  from rnd_fixed[OF is_f32_minus[OF this]] show ?thesis by simp
qed

lemma rnd_bottom: "rnd (- (9227469 / 1048576)) = Fin (- (9227469 / 1048576))"
proof -
  have "is_f32 (9227469 / 1048576)" by (rule is_f32_I[of 3 _ "9227469"]) simp_all
  from rnd_fixed[OF is_f32_minus[OF this]] show ?thesis by simp
qed

lemma round_even_snap: "round_even (281857229 / 32) = 8808038"
  by (simp add: round_even_def Let_def)

lemma rnd_real_snap: "rnd_real (281857229 / 134217728) = 4404019 / 2097152"
  using rnd_real_eval(1)[of 1 "281857229 / 134217728"] by (simp add: round_even_snap)

lemma rnd_snap: "rnd (281857229 / 134217728) = Fin (4404019 / 2097152)"
  by (simp add: rnd_def rnd_real_snap)

lemma snap_below_terrain: "posY_f32 (update_f32 (Fin 1) (flatTerrain_f32 (Fin (13421773 / 2 ^ 27)))
        (new_CapsuleCollider_f32 (Fin 0) (Fin 3) (Fin 0) (Fin 4) (Fin 1))) = Fin (4404019 / 2 ^ 21)"
  by (simp add: update_f32_def new_CapsuleCollider_f32_def flatTerrain_f32_def gravity_f32_def
      fsub_def Let_def rnd_gravity rnd_2 rnd_vel_pos rnd_bottom rnd_snap)

lemma is_f32_tenth: "is_f32 (13421773 / 2 ^ 27)"
  by (rule is_f32_I[of "- 4" _ "13421773"]) simp_all

lemma snapped_bottom:
  "fsub (Fin (4404019 / 2 ^ 21)) (fdiv (Fin 4) (Fin 2)) = Fin (209715 / 2 ^ 21)"
proof -
  have "is_f32 (209715 / 2 ^ 21)" by (rule is_f32_I[of "- 4" _ "13421760"]) simp_all
  from rnd_fixed[OF this] show ?thesis by (simp add: fsub_def rnd_2)
qed

subsection \<open>A tick so short that the capsule never moves\<close>

lemma tiny_gravity_step:
  "fmul gravity_f32 (Fin (1 / 2 ^ 27)) = Fin (- (10276045 / 2 ^ 47))"
proof -
  have "is_f32 (10276045 / 2 ^ 47)" by (rule is_f32_I[of "- 24" _ "10276045"]) simp_all
  from rnd_fixed[OF is_f32_minus[OF this]] show ?thesis by (simp add: gravity_f32_def)
qed

lemma rnd_real_vel_floor: "rnd_real (- 2 - 10276045 / 2 ^ 47) = - 2"
proof -
  have "round_even (281474986986701 / 33554432) = 8388608"
    by (simp add: round_even_def Let_def)
  then show ?thesis
    using rnd_real_eval(2)[of 1 "2 + 10276045 / 2 ^ 47"] by simp
qed

lemma rnd_real_pos_ceiling: "rnd_real (10 - 1 / 2 ^ 26) = 10"
proof -
  have "round_even (671088639 / 64) = 10485760"
    by (simp add: round_even_def Let_def)
  then show ?thesis
    using rnd_real_eval(1)[of 3 "10 - 1 / 2 ^ 26"] by simp
qed

lemma update_f32_no_snap:
  assumes "fadd (velocityY_f32 c) (fmul gravity_f32 dt) = V"
    and "fadd (posY_f32 c) (fmul V dt) = Y"
    and "\<not> fle (fsub Y (fdiv (height_f32 c) (Fin 2))) (q (posX_f32 c) (posZ_f32 c))"
  shows "update_f32 dt q c = c\<lparr>velocityY_f32 := V, posY_f32 := Y\<rparr>"
  by (simp add: update_f32_def Let_def assms)

lemma stuck_update:
  assumes "stuck c"
  shows "stuck (update_f32 (Fin (1 / 2 ^ 27)) (flatTerrain_f32 (Fin 0)) c)"
proof -
  from assms obtain v where c: "posY_f32 c = Fin 10" "height_f32 c = Fin 4"
    "velocityY_f32 c = Fin v" and v: "is_f32 v" "- 2 \<le> v" "v \<le> 0"
    by (auto simp: stuck_def)
  define d :: real where "d = - (10276045 / 2 ^ 47)"
  define v' where "v' = rnd_real (v + d)"
  have m2: "is_f32 (- 2)" by (rule is_f32_minus[OF is_f32_2])
  have lo: "- 2 \<le> rnd_real (- 2 + d)" using rnd_real_vel_floor by (simp add: d_def)
  have "rnd_real (- 2 + d) \<le> v'" unfolding v'_def by (rule rnd_real_mono) (use v in simp)
  then have v'lo: "- 2 \<le> v'" using lo by linarith
  have "v' \<le> rnd_real 0" unfolding v'_def by (rule rnd_real_mono) (use v in \<open>simp add: d_def\<close>)
  then have v'hi: "v' \<le> 0" by simp
  have v'f: "is_f32 v'"
    using v'lo v'hi is_f32_D(2)[OF m2] by (simp add: v'_def is_f32_def abs_less_iff)
  have V: "fadd (Fin v) (Fin d) = Fin v'"
    using rnd_cases[of "v + d"] v'lo v'hi by (auto simp: v'_def)
  define m where "m = rnd_real (v' * (1 / 2 ^ 27))"
  have p26: "rnd_real (- (1 / 2 ^ 26)) = - (1 / 2 ^ 26)"
    using rnd_real_pow2[of "- 26"] by (simp add: rnd_real_minus power_int_minus field_simps)
  have "rnd_real (- (1 / 2 ^ 26)) \<le> m" unfolding m_def
    by (rule rnd_real_mono) (use v'lo in \<open>simp add: field_simps\<close>)
  then have mlo: "- (1 / 2 ^ 26) \<le> m" using p26 by simp
  have "m \<le> rnd_real 0" unfolding m_def
    by (rule rnd_real_mono) (use v'hi in \<open>simp add: field_simps mult_le_0_iff\<close>)
  then have mhi: "m \<le> 0" by simp
  have M: "fmul (Fin v') (Fin (1 / 2 ^ 27)) = Fin m"
    using rnd_cases[of "v' * (1 / 2 ^ 27)"] mlo mhi by (auto simp: m_def)
  have "rnd_real (10 - 1 / 2 ^ 26) \<le> rnd_real (10 + m)"
    by (rule rnd_real_mono) (use mlo in simp)
  moreover have "rnd_real (10 + m) \<le> rnd_real 10"
    by (rule rnd_real_mono) (use mhi in simp)
  ultimately have "rnd_real (10 + m) = 10"
    using rnd_real_pos_ceiling is_f32_D(1)[OF is_f32_10] by linarith
  then have Y: "fadd (Fin 10) (Fin m) = Fin 10" by (simp add: rnd_def)
  have B: "\<not> fle (fsub (Fin 10) (fdiv (height_f32 c) (Fin 2)))
              (flatTerrain_f32 (Fin 0) (posX_f32 c) (posZ_f32 c))"
    by (simp add: c fsub_def flatTerrain_f32_def rnd_2 rnd_fixed[OF is_f32_8])
  have V': "fadd (velocityY_f32 c) (fmul gravity_f32 (Fin (1 / 2 ^ 27))) = Fin v'"
    unfolding c tiny_gravity_step d_def[symmetric] by (rule V)
  have Y': "fadd (posY_f32 c) (fmul (Fin v') (Fin (1 / 2 ^ 27))) = Fin 10"
    unfolding c M by (rule Y)
  show ?thesis
    unfolding update_f32_no_snap[where q = "flatTerrain_f32 (Fin 0)", OF V' Y' B]
    using v'f v'lo v'hi by (simp add: stuck_def c)
qed

lemma stuck_ticks:
  "stuck c \<Longrightarrow> stuck (ticks_f32 n (Fin (1 / 2 ^ 27)) (flatTerrain_f32 (Fin 0)) c)"
proof (induction n)
  case 0
  then show ?case by (simp add: ticks_f32_0)
next
  case (Suc n)
  show ?case unfolding ticks_f32_Suc by (rule stuck_update[OF Suc.IH[OF Suc.prems]])
qed

lemma stuck_start: "stuck (new_CapsuleCollider_f32 (Fin 0) (Fin 10) (Fin 0) (Fin 4) (Fin 1))"
  by (simp add: stuck_def new_CapsuleCollider_f32_def is_f32_0)

lemma never_lands:
  "posY_f32 (ticks_f32 n (Fin (1 / 2 ^ 27)) (flatTerrain_f32 (Fin 0))
       (new_CapsuleCollider_f32 (Fin 0) (Fin 10) (Fin 0) (Fin 4) (Fin 1))) = Fin 10"
  using stuck_ticks[OF stuck_start, of n] by (simp add: stuck_def)

text \<open>
  C4 (counterexample): a capsule of height 4 at rest at height 3 over flat terrain of
  elevation \<open>0.1f\<close>, which is \<open>13421773 / 2\<^sup>2\<^sup>7\<close>, one update with \<open>dt = 1\<close>. The snap
  branch stores the float sum \<open>0.1f + 2\<close>, which is \<open>4404019 / 2\<^sup>2\<^sup>1\<close> and not
  \<open>E + H / 2\<close>; the bottom, \<open>posY - H / 2 = 209715 / 2\<^sup>2\<^sup>1\<close>, is below the terrain: the
  comparison \<open>E \<le> bottom\<close> is false. And a capsule of height 4 at rest at height 10
  over terrain of elevation 0, updated with \<open>dt = 2\<^sup>-\<^sup>2\<^sup>7\<close>, is still at height 10 after a
  million updates (after any number, by \<open>never_lands\<close>).
\<close>

theorem capsule_rounding_counterexample:
  "is_f32 (13421773 / 2 ^ 27)
   \<and> posY_f32 (update_f32 (Fin 1) (flatTerrain_f32 (Fin (13421773 / 2 ^ 27)))
        (new_CapsuleCollider_f32 (Fin 0) (Fin 3) (Fin 0) (Fin 4) (Fin 1))) = Fin (4404019 / 2 ^ 21)
   \<and> fsub (Fin (4404019 / 2 ^ 21)) (fdiv (Fin 4) (Fin 2)) = Fin (209715 / 2 ^ 21)
   \<and> \<not> fle (Fin (13421773 / 2 ^ 27)) (Fin (209715 / 2 ^ 21))
   \<and> posY_f32 (ticks_f32 1000000 (Fin (1 / 2 ^ 27)) (flatTerrain_f32 (Fin 0))
        (new_CapsuleCollider_f32 (Fin 0) (Fin 10) (Fin 0) (Fin 4) (Fin 1))) = Fin 10"
proof (intro conjI)
  show "is_f32 (13421773 / 2 ^ 27)" by (rule is_f32_tenth)
  show "posY_f32 (update_f32 (Fin 1) (flatTerrain_f32 (Fin (13421773 / 2 ^ 27)))
        (new_CapsuleCollider_f32 (Fin 0) (Fin 3) (Fin 0) (Fin 4) (Fin 1))) = Fin (4404019 / 2 ^ 21)"
    by (rule snap_below_terrain)
  show "fsub (Fin (4404019 / 2 ^ 21)) (fdiv (Fin 4) (Fin 2)) = Fin (209715 / 2 ^ 21)"
    by (rule snapped_bottom)
  show "\<not> fle (Fin (13421773 / 2 ^ 27)) (Fin (209715 / 2 ^ 21))" by simp
  show "posY_f32 (ticks_f32 1000000 (Fin (1 / 2 ^ 27)) (flatTerrain_f32 (Fin 0))
        (new_CapsuleCollider_f32 (Fin 0) (Fin 10) (Fin 0) (Fin 4) (Fin 1))) = Fin 10"
    by (rule never_lands)
qed

subsection \<open>The drop in binary32\<close>

lemma not_absorbed_unit: "not_absorbed 0 4 3 1"
  unfolding not_absorbed_def
proof (intro allI impI)
  fix y :: real
  assume a: "is_f32 y \<and> rnd_real (0 + rnd_real (4 / 2)) \<le> y \<and> y \<le> 3"
  have r2: "rnd_real 2 = 2" by (rule is_f32_D(1)[OF is_f32_2])
  from a have y: "2 \<le> y" "y \<le> 3" by (simp_all add: r2)
  have "val (rnd (y + - (10276045 / 1048576))) \<le> val (rnd (- 6))"
    by (rule val_rnd_mono) (use y in simp)
  also have "\<dots> = - 6" using rnd_fixed[OF is_f32_minus[OF is_f32_6]] by simp
  finally show "val (fadd (Fin y) (fmul (fmul gravity_f32 (Fin 1)) (Fin 1))) < y"
    using y by (simp add: gravity_f32_def rnd_gravity)
qed

lemma rnd_real_half_4: "rnd_real (4 / 2) = 2"
  using is_f32_D(1)[OF is_f32_2] by simp

text \<open>
  C4 (amended): a capsule of height \<open>H\<close> at rest at the height \<open>y0\<close>, its bottom above
  flat terrain of elevation \<open>E\<close>, updated repeatedly with a fixed \<open>dt = t > 0\<close>, all
  values binary32 numbers. After every number of updates the capsule either rests at
  the float sum of \<open>E\<close> and the float half of \<open>H\<close> with velocity 0, or its bottom is
  strictly above \<open>E\<close>. If moreover the decrement of one tick is not absorbed by the
  rounding of the position at any height between the resting height and \<open>y0\<close>, then from
  some tick on the capsule rests there at every tick.
\<close>

theorem capsule_drop_binary32:
  assumes "is_f32 E" and "is_f32 H" and "0 \<le> H" and "is_f32 y0" and "is_f32 t" and "0 < t"
    and "posY_f32 c = Fin y0" and "velocityY_f32 c = Fin 0" and "height_f32 c = Fin H"
    and "E + rnd_real (H / 2) < y0"
  shows "(\<forall>n. (posY_f32 (ticks_f32 n (Fin t) (flatTerrain_f32 (Fin E)) c)
                  = Fin (rnd_real (E + rnd_real (H / 2)))
               \<and> velocityY_f32 (ticks_f32 n (Fin t) (flatTerrain_f32 (Fin E)) c) = Fin 0)
            \<or> (\<exists>y. posY_f32 (ticks_f32 n (Fin t) (flatTerrain_f32 (Fin E)) c) = Fin y
                   \<and> E < y - rnd_real (H / 2)))
     \<and> (not_absorbed E H y0 t \<longrightarrow>
          (\<exists>N. \<forall>n\<ge>N. posY_f32 (ticks_f32 n (Fin t) (flatTerrain_f32 (Fin E)) c)
                          = Fin (rnd_real (E + rnd_real (H / 2)))
                      \<and> velocityY_f32 (ticks_f32 n (Fin t) (flatTerrain_f32 (Fin E)) c) = Fin 0))"
proof (intro conjI allI impI)
  fix n
  from falling_or_settled[OF assms(1-4,10,6-9), of n]
  show "(posY_f32 (ticks_f32 n (Fin t) (flatTerrain_f32 (Fin E)) c)
                  = Fin (rnd_real (E + rnd_real (H / 2)))
               \<and> velocityY_f32 (ticks_f32 n (Fin t) (flatTerrain_f32 (Fin E)) c) = Fin 0)
            \<or> (\<exists>y. posY_f32 (ticks_f32 n (Fin t) (flatTerrain_f32 (Fin E)) c) = Fin y
                   \<and> E < y - rnd_real (H / 2))"
    by (auto simp: settled_def falling_def)
next
  assume na: "not_absorbed E H y0 t"
  from eventually_settled[OF assms(1-4,10,6) na assms(7-9)]
  show "\<exists>N. \<forall>n\<ge>N. posY_f32 (ticks_f32 n (Fin t) (flatTerrain_f32 (Fin E)) c)
                          = Fin (rnd_real (E + rnd_real (H / 2)))
                      \<and> velocityY_f32 (ticks_f32 n (Fin t) (flatTerrain_f32 (Fin E)) c) = Fin 0"
    by (auto simp: settled_def)
qed

theorem capsule_drop_binary32_witness:
  "is_f32 0 \<and> is_f32 4 \<and> is_f32 3 \<and> is_f32 1 \<and> 0 + rnd_real (4 / 2) < 3
   \<and> not_absorbed 0 4 3 1
   \<and> (\<exists>N. \<forall>n\<ge>N.
         posY_f32 (ticks_f32 n (Fin 1) (flatTerrain_f32 (Fin 0))
           (new_CapsuleCollider_f32 (Fin 0) (Fin 3) (Fin 0) (Fin 4) (Fin 1))) = Fin 2
       \<and> velocityY_f32 (ticks_f32 n (Fin 1) (flatTerrain_f32 (Fin 0))
           (new_CapsuleCollider_f32 (Fin 0) (Fin 3) (Fin 0) (Fin 4) (Fin 1))) = Fin 0)"
proof -
  define c where "c = new_CapsuleCollider_f32 (Fin 0) (Fin 3) (Fin 0) (Fin 4) (Fin 1)"
  have c: "posY_f32 c = Fin 3" "velocityY_f32 c = Fin 0" "height_f32 c = Fin 4"
    by (simp_all add: c_def new_CapsuleCollider_f32_def)
  have h: "0 + rnd_real (4 / 2) < (3::real)" using rnd_real_half_4 by simp
  have s: "rnd_real (0 + rnd_real (4 / 2)) = 2"
    using is_f32_D(1)[OF is_f32_2] rnd_real_half_4 by simp
  have "not_absorbed 0 4 3 1 \<longrightarrow>
          (\<exists>N. \<forall>n\<ge>N. posY_f32 (ticks_f32 n (Fin 1) (flatTerrain_f32 (Fin 0)) c)
                          = Fin (rnd_real (0 + rnd_real (4 / 2)))
                      \<and> velocityY_f32 (ticks_f32 n (Fin 1) (flatTerrain_f32 (Fin 0)) c) = Fin 0)"
    using capsule_drop_binary32[OF is_f32_0 is_f32_4 _ is_f32_3 is_f32_1 _ c h] by simp
  then have "\<exists>N. \<forall>n\<ge>N. posY_f32 (ticks_f32 n (Fin 1) (flatTerrain_f32 (Fin 0)) c) = Fin 2
                      \<and> velocityY_f32 (ticks_f32 n (Fin 1) (flatTerrain_f32 (Fin 0)) c) = Fin 0"
    using not_absorbed_unit unfolding s by blast
  then show ?thesis
    using is_f32_0 is_f32_4 is_f32_3 is_f32_1 h not_absorbed_unit unfolding c_def by blast
qed

section \<open>Properties of the noise field\<close>

subsection \<open>The frequency overflows\<close>

lemma fractalNoise_loop_f32_NaN:
  "fst (fractalNoise_loop_f32 sinf cosf i octaves x y persistence NaN frequency amplitude maxValue)
     = NaN"
proof (induction "nat (octaves - i)" arbitrary: i frequency amplitude maxValue)
  case 0
  then show ?case by (subst fractalNoise_loop_f32.simps) simp
next
  case (Suc k)
  then have "k = nat (octaves - (i + 1))" by simp
  from Suc(1)[OF this] show ?case by (subst fractalNoise_loop_f32.simps) simp
qed

text \<open>Once the sine of an octave is NaN the total is NaN.\<close>

lemma fractalNoise_loop_f32_poisoned:
  assumes "i < octaves" and "sinf (fmul x frequency) = NaN"
  shows "fst (fractalNoise_loop_f32 sinf cosf i octaves x y persistence total' frequency
                amplitude maxValue) = NaN"
  by (subst fractalNoise_loop_f32.simps) (simp add: assms fractalNoise_loop_f32_NaN)

lemma fmul_PInf_cases: "fmul x PInf = NaN \<or> fmul x PInf = PInf \<or> fmul x PInf = NInf"
  by (cases x) simp_all

lemma fractalNoise_loop_f32_inf_frequency:
  assumes "i < octaves" and "sinf NaN = NaN" and "sinf PInf = NaN" and "sinf NInf = NaN"
  shows "fst (fractalNoise_loop_f32 sinf cosf i octaves x y persistence total' PInf
                amplitude maxValue) = NaN"
proof -
  have "sinf (fmul x PInf) = NaN" using fmul_PInf_cases[of x] assms(2-4) by auto
  then show ?thesis by (rule fractalNoise_loop_f32_poisoned[OF assms(1)])
qed

lemma double_frequency:
  assumes "- 126 \<le> k" and "k < 127"
  shows "fmul (Fin (2 powi k)) (Fin 2) = Fin (2 powi (k + 1))"
proof -
  have e: "2 powi k * 2 = (2::real) powi (k + 1)" by (simp add: power_int_add)
  have "(2::real) powi (k + 1) \<le> 2 powi 127" by (rule power_int_increasing) (use assms in simp_all)
  also have "\<dots> < 2 ^ 128" by simp
  finally have "\<bar>(2::real) powi (k + 1)\<bar> < 2 ^ 128" by simp
  then have "is_f32 (2 powi (k + 1))"
    using rnd_real_pow2[of "k + 1"] assms by (simp add: is_f32_def)
  from rnd_fixed[OF this] show ?thesis by (simp add: e)
qed

lemma overflow_frequency: "fmul (Fin (2 powi 127)) (Fin 2) = PInf"
proof -
  have e: "2 powi 127 * 2 = (2::real) powi 128" by (simp add: power_int_add)
  have "rnd_real (2 powi 128) = 2 powi 128" by (rule rnd_real_pow2) simp
  then show ?thesis by (simp add: e rnd_def)
qed

lemma fractalNoise_loop_f32_step:
  assumes "i < octaves" and "fmul frequency (Fin 2) = F'"
    and "\<And>t a m. fst (fractalNoise_loop_f32 sinf cosf (i + 1) octaves x y persistence t F'
                         a m) = NaN"
  shows "fst (fractalNoise_loop_f32 sinf cosf i octaves x y persistence total' frequency
                amplitude maxValue) = NaN"
  by (subst fractalNoise_loop_f32.simps) (simp add: assms)

lemma fractalNoise_loop_f32_overflow:
  assumes "sinf NaN = NaN" and "sinf PInf = NaN" and "sinf NInf = NaN"
    and "0 \<le> i" and "i \<le> 128" and "129 < octaves"
  shows "fst (fractalNoise_loop_f32 sinf cosf i octaves x y persistence total'
                (Fin (2 powi (i - 1))) amplitude maxValue) = NaN"
  using assms(4,5)
proof (induction "nat (128 - i)" arbitrary: i total' amplitude maxValue)
  case 0
  then have i: "i = 128" by simp
  have lt: "i + 1 < octaves" "i < octaves" using i assms(6) by simp_all
  have "i - 1 = 127" using i by simp
  then have f: "fmul (Fin (2 powi (i - 1))) (Fin 2) = PInf" by (simp only: overflow_frequency)
  show ?case
    by (rule fractalNoise_loop_f32_step[OF lt(2) f])
      (rule fractalNoise_loop_f32_inf_frequency[OF lt(1) assms(1-3)])
next
  case (Suc k)
  then have k: "k = nat (128 - (i + 1))" and b: "0 \<le> i + 1" "i + 1 \<le> 128" by simp_all
  have lt: "i < octaves" using Suc(4) assms(6) by simp
  have "fmul (Fin (2 powi (i - 1))) (Fin 2) = Fin (2 powi (i - 1 + 1))"
    by (rule double_frequency) (use Suc(3) b in simp_all)
  moreover have "i - 1 + 1 = i + 1 - 1" by simp
  ultimately have f: "fmul (Fin (2 powi (i - 1))) (Fin 2) = Fin (2 powi (i + 1 - 1))"
    by (simp only:)
  show ?case
    by (rule fractalNoise_loop_f32_step[OF lt f]) (rule Suc(1)[OF k b])
qed

lemma fractalNoise_f32_many_octaves:
  assumes "sinf NaN = NaN" and "sinf PInf = NaN" and "sinf NInf = NaN"
    and "129 < octaves"
  shows "fractalNoise_f32 sinf cosf x y octaves persistence = NaN"
proof -
  have "fst (fractalNoise_loop_f32 sinf cosf 0 octaves x y persistence (Fin 0)
               (Fin (2 powi (0 - 1))) (Fin 64) (Fin 0)) = NaN"
    by (rule fractalNoise_loop_f32_overflow[OF assms(1-3) _ _ assms(4)]) simp_all
  then show ?thesis
    by (auto simp: fractalNoise_f32_def split: prod.splits)
qed

lemma rnd_pow2_128: "rnd (2 ^ 128) = PInf"
proof -
  have "rnd_real (2 powi 128) = 2 powi 128" by (rule rnd_real_pow2) simp
  then show ?thesis by (simp add: rnd_def)
qed

lemma is_f32_pow2_126: "is_f32 (2 ^ 126)"
  using rnd_real_pow2[of 126] by (simp add: is_f32_def)

lemma fractalNoise_default_f32_huge:
  assumes "sinf PInf = NaN"
  shows "fractalNoise_default_f32 sinf cosf (Fin (2 ^ 126)) y = NaN"
proof -
  let ?p = "Fin (11744051 / 2 ^ 24)"
  let ?x = "Fin (2 ^ 126)"
  have s3: "fst (fractalNoise_loop_f32 sinf cosf 3 6 ?x y ?p t (Fin 4) a m) = NaN" for t a m
    by (rule fractalNoise_loop_f32_poisoned) (use rnd_pow2_128 assms in simp_all)
  have s2: "fst (fractalNoise_loop_f32 sinf cosf 2 6 ?x y ?p t (Fin 2) a m) = NaN" for t a m
    using fractalNoise_loop_f32_step[where i = 2 and octaves = 6 and frequency = "Fin 2"
        and F' = "Fin 4" and x = ?x and sinf = sinf] s3 rnd_fixed[OF is_f32_4]
    by simp
  have s1: "fst (fractalNoise_loop_f32 sinf cosf 1 6 ?x y ?p t (Fin 1) a m) = NaN" for t a m
    using fractalNoise_loop_f32_step[where i = 1 and octaves = 6 and frequency = "Fin 1"
        and F' = "Fin 2" and x = ?x and sinf = sinf] s2 rnd_fixed[OF is_f32_2]
    by simp
  have s0: "fst (fractalNoise_loop_f32 sinf cosf 0 6 ?x y ?p t (Fin (1 / 2)) a m) = NaN"
    for t a m
    using fractalNoise_loop_f32_step[where i = 0 and octaves = 6 and frequency = "Fin (1 / 2)"
        and F' = "Fin 1" and x = ?x and sinf = sinf] s1 rnd_fixed[OF is_f32_1]
    by simp
  from s0[of "Fin 0" "Fin 64" "Fin 0"] show ?thesis
    by (auto simp: fractalNoise_default_f32_def fractalNoise_f32_def split: prod.splits)
qed

lemma sin_rounded_special:
  "sin_rounded NaN = NaN" "sin_rounded PInf = NaN" "sin_rounded NInf = NaN"
  by (simp_all add: sin_rounded_def)

text \<open>
  C6 (the code at the failing inputs): in binary32 the frequency, doubled once per
  octave from \<open>0.5f\<close>, is \<open>+\<infinity>\<close> from the 130th octave on; the product \<open>x * frequency\<close>
  is then an infinity or NaN, its sine is NaN, and so is the result, for all \<open>x\<close>, \<open>y\<close>
  and \<open>persistence\<close>, for instance \<open>fractalNoise(0, 0, 130, 0.5f)\<close>. With the default six
  octaves the same happens at \<open>x = 2\<^sup>1\<^sup>2\<^sup>6\<close>, where \<open>x * 4\<close> overflows. NaN is not in
  \<open>[0, 1]\<close>: both comparisons are false.
\<close>

theorem fractalNoise_f32_not_normalized:
  assumes "sinf NaN = NaN" and "sinf PInf = NaN" and "sinf NInf = NaN"
  shows "(129 < octaves \<longrightarrow> fractalNoise_f32 sinf cosf x y octaves persistence = NaN)
    \<and> fractalNoise_f32 sinf cosf (Fin 0) (Fin 0) 130 (Fin (1 / 2)) = NaN
    \<and> fractalNoise_f32 sinf cosf (Fin (2 ^ 126)) (Fin 0) 6 (Fin (11744051 / 2 ^ 24)) = NaN
    \<and> \<not> fle (Fin 0) (fractalNoise_f32 sinf cosf (Fin 0) (Fin 0) 130 (Fin (1 / 2)))
    \<and> \<not> fle (fractalNoise_f32 sinf cosf (Fin 0) (Fin 0) 130 (Fin (1 / 2))) (Fin 1)"
proof -
  have a: "fractalNoise_f32 sinf cosf x y n p = NaN" if "129 < n" for x y n p
    by (rule fractalNoise_f32_many_octaves[OF assms that])
  have b: "fractalNoise_f32 sinf cosf (Fin (2 ^ 126)) (Fin 0) 6 (Fin (11744051 / 2 ^ 24)) = NaN"
    using fractalNoise_default_f32_huge[where sinf = sinf, OF assms(2)]
    unfolding fractalNoise_default_f32_def .
  have c: "fractalNoise_f32 sinf cosf (Fin 0) (Fin 0) 130 (Fin (1 / 2)) = NaN"
    by (rule a) simp
  show ?thesis unfolding c using a b by simp
qed

theorem fractalNoise_f32_not_normalized_witness:
  "sin_rounded NaN = NaN \<and> sin_rounded PInf = NaN \<and> sin_rounded NInf = NaN
   \<and> (129::int) < 130
   \<and> fractalNoise_f32 sin_rounded cos_rounded (Fin 1) (Fin 1) 130 (Fin (11744051 / 2 ^ 24)) = NaN
   \<and> fractalNoise_f32 sin_rounded cos_rounded (Fin 0) (Fin 0) 130 (Fin (1 / 2)) = NaN
   \<and> fractalNoise_f32 sin_rounded cos_rounded (Fin (2 ^ 126)) (Fin 0) 6
        (Fin (11744051 / 2 ^ 24)) = NaN"
  using fractalNoise_f32_not_normalized[where sinf = sin_rounded and cosf = cos_rounded
      and octaves = 130 and x = "Fin 1" and y = "Fin 1" and persistence = "Fin (11744051 / 2 ^ 24)"]
  by (simp add: sin_rounded_special)

section \<open>Properties of the generated grid and mesh\<close>

lemma generateHeightMap_row_spec:
  "0 \<le> x \<Longrightarrow> length row = nat w \<Longrightarrow>
   length (generateHeightMap_row x w y scale row) = nat w \<and>
   (\<forall>i. 0 \<le> i \<and> i < w \<longrightarrow>
      generateHeightMap_row x w y scale row ! nat i =
        (if x \<le> i
         then (fractalNoise_default (of_int i * scale) (of_int y * scale) - 0.5) * 50
         else row ! nat i))"
proof (induction x w y scale row rule: generateHeightMap_row.induct)
  case (1 x w y scale row)
  show ?case
  proof (cases "x < w")
    case False
    then show ?thesis using "1.prems" by (simp add: generateHeightMap_row.simps)
  next
    case True
    let ?v = "(fractalNoise_default (of_int x * scale) (of_int y * scale) - 0.5) * 50"
    have step: "generateHeightMap_row x w y scale row =
                generateHeightMap_row (x + 1) w y scale (row[nat x := ?v])"
      using True by (subst generateHeightMap_row.simps) (simp add: Let_def)
    have ih: "length (generateHeightMap_row (x + 1) w y scale (row[nat x := ?v])) = nat w \<and>
      (\<forall>i. 0 \<le> i \<and> i < w \<longrightarrow>
        generateHeightMap_row (x + 1) w y scale (row[nat x := ?v]) ! nat i =
          (if x + 1 \<le> i
           then (fractalNoise_default (of_int i * scale) (of_int y * scale) - 0.5) * 50
           else (row[nat x := ?v]) ! nat i))"
      using "1.IH"[OF True refl refl] "1.prems" by simp
    show ?thesis
    proof (intro conjI allI impI)
      show "length (generateHeightMap_row x w y scale row) = nat w"
        using ih step by simp
    next
      fix i assume i: "0 \<le> i \<and> i < w"
      have "generateHeightMap_row x w y scale row ! nat i =
          (if x + 1 \<le> i
           then (fractalNoise_default (of_int i * scale) (of_int y * scale) - 0.5) * 50
           else (row[nat x := ?v]) ! nat i)"
        using ih i step by simp
      also have "\<dots> = (if x \<le> i
         then (fractalNoise_default (of_int i * scale) (of_int y * scale) - 0.5) * 50
         else row ! nat i)"
      proof (cases "i = x")
        case True
        then show ?thesis using i "1.prems" by simp
      next
        case False
        then have "nat i \<noteq> nat x" using i "1.prems"(1) by linarith
        then show ?thesis using False by auto
      qed
      finally show "generateHeightMap_row x w y scale row ! nat i =
        (if x \<le> i
         then (fractalNoise_default (of_int i * scale) (of_int y * scale) - 0.5) * 50
         else row ! nat i)" .
    qed
  qed
qed

lemma generateHeightMap_rows_spec:
  "0 \<le> y \<Longrightarrow> 0 \<le> w \<Longrightarrow> length hm = nat h \<Longrightarrow>
   \<exists>g. generateHeightMap_rows y w h scale hm = Some g \<and> length g = nat h \<and>
     (\<forall>j. 0 \<le> j \<and> j < h \<longrightarrow>
        g ! nat j = (if y \<le> j
                     then generateHeightMap_row 0 w j scale (vector_resize (nat w) 0 (hm ! nat j))
                     else hm ! nat j))"
proof (induction y w h scale hm rule: generateHeightMap_rows.induct)
  case (1 y w h scale hm)
  show ?case
  proof (cases "y < h")
    case False
    then show ?thesis using "1.prems" by (simp add: generateHeightMap_rows.simps)
  next
    case True
    let ?r = "generateHeightMap_row 0 w y scale (vector_resize (nat w) 0 (hm ! nat y))"
    have nw: "\<not> w < 0" using "1.prems"(2) by simp
    have step: "generateHeightMap_rows y w h scale hm =
                generateHeightMap_rows (y + 1) w h scale (hm[nat y := ?r])"
      using True nw by (subst generateHeightMap_rows.simps) simp
    obtain g where g: "generateHeightMap_rows (y + 1) w h scale (hm[nat y := ?r]) = Some g"
      "length g = nat h"
      "\<forall>j. 0 \<le> j \<and> j < h \<longrightarrow>
        g ! nat j = (if y + 1 \<le> j
                     then generateHeightMap_row 0 w j scale (vector_resize (nat w) 0 ((hm[nat y := ?r]) ! nat j))
                     else (hm[nat y := ?r]) ! nat j)"
      using "1.IH"[OF True nw] "1.prems" by auto
    have "\<forall>j. 0 \<le> j \<and> j < h \<longrightarrow>
        g ! nat j = (if y \<le> j
                     then generateHeightMap_row 0 w j scale (vector_resize (nat w) 0 (hm ! nat j))
                     else hm ! nat j)"
    proof (intro allI impI)
      fix j assume j: "0 \<le> j \<and> j < h"
      show "g ! nat j = (if y \<le> j
                     then generateHeightMap_row 0 w j scale (vector_resize (nat w) 0 (hm ! nat j))
                     else hm ! nat j)"
      proof (cases "j = y")
        case True
        then show ?thesis using g(3) j "1.prems" by simp
      next
        case False
        then have "nat j \<noteq> nat y" using j "1.prems"(1) by linarith
        then show ?thesis using g(3) j False by auto
      qed
    qed
    then show ?thesis using g step by simp
  qed
qed

lemma length_vector_resize: "length (vector_resize n d xs) = n"
  by (simp add: vector_resize_def)

lemma generateHeightMap_result:
  assumes "0 \<le> w" and "0 \<le> h"
  shows "\<exists>g. generateHeightMap hm w h scale = Some g \<and> is_grid g (nat w) (nat h) \<and>
     (\<forall>j. 0 \<le> j \<and> j < h \<longrightarrow> length (g ! nat j) = nat w \<and>
        (\<forall>i. 0 \<le> i \<and> i < w \<longrightarrow>
           g ! nat j ! nat i =
             (fractalNoise_default (of_int i * scale) (of_int j * scale) - 0.5) * 50))"
proof -
  let ?hm = "vector_resize (nat h) [] hm"
  have len: "length ?hm = nat h" by (rule length_vector_resize)
  have z: "(0::int) \<le> 0" by simp
  from generateHeightMap_rows_spec[OF z assms(1) len, of scale]
  obtain g where g: "generateHeightMap_rows 0 w h scale ?hm = Some g" "length g = nat h"
    "\<forall>j. 0 \<le> j \<and> j < h \<longrightarrow>
        g ! nat j = (if 0 \<le> j
                     then generateHeightMap_row 0 w j scale (vector_resize (nat w) 0 (?hm ! nat j))
                     else ?hm ! nat j)"
    by blast
  have "\<forall>j. 0 \<le> j \<and> j < h \<longrightarrow> length (g ! nat j) = nat w \<and>
        (\<forall>i. 0 \<le> i \<and> i < w \<longrightarrow>
           g ! nat j ! nat i =
             (fractalNoise_default (of_int i * scale) (of_int j * scale) - 0.5) * 50)"
  proof (intro allI impI)
    fix j assume j: "0 \<le> j \<and> j < h"
    let ?row = "vector_resize (nat w) 0 (?hm ! nat j)"
    have r: "g ! nat j = generateHeightMap_row 0 w j scale ?row" using g(3) j by simp
    have "length ?row = nat w" by (rule length_vector_resize)
    from generateHeightMap_row_spec[OF z this, of j scale]
    have "length (generateHeightMap_row 0 w j scale ?row) = nat w \<and>
      (\<forall>i. 0 \<le> i \<and> i < w \<longrightarrow>
        generateHeightMap_row 0 w j scale ?row ! nat i =
          (fractalNoise_default (of_int i * scale) (of_int j * scale) - 0.5) * 50)"
      by simp
    then show "length (g ! nat j) = nat w \<and>
        (\<forall>i. 0 \<le> i \<and> i < w \<longrightarrow>
           g ! nat j ! nat i =
             (fractalNoise_default (of_int i * scale) (of_int j * scale) - 0.5) * 50)"
      unfolding r .
  qed
  note cells = this
  have "\<forall>row\<in>set g. length row = nat w"
  proof
    fix row assume "row \<in> set g"
    then obtain k where k: "k < length g" "row = g ! k" by (auto simp: in_set_conv_nth)
    then have "0 \<le> int k \<and> int k < h" using g(2) by simp
    with cells have "length (g ! nat (int k)) = nat w" by blast
    then show "length row = nat w" using k by simp
  qed
  then have grid: "is_grid g (nat w) (nat h)" using g(2) by (simp add: is_grid_def)
  have "generateHeightMap hm w h scale = Some g"
    using g(1) assms(2) by (simp add: generateHeightMap_def)
  with cells grid show ?thesis by blast
qed

lemma generateHeightMap_f32_NaN_cell:
  assumes "fractalNoise_default_f32 sinf cosf (fmul (int_to_f32 1) scale)
             (fmul (int_to_f32 0) scale) = NaN"
  shows "generateHeightMap_f32 sinf cosf [] 2 1 scale
           = Some [[fmul (fsub (fractalNoise_default_f32 sinf cosf (fmul (int_to_f32 0) scale)
                                  (fmul (int_to_f32 0) scale))
                      (Fin (1 / 2))) (Fin 50), NaN]]"
proof -
  have r2: "generateHeightMap_row_f32 sinf cosf 2 2 0 scale row = row" for row
    by (subst generateHeightMap_row_f32.simps) simp
  have r1: "generateHeightMap_row_f32 sinf cosf 1 2 0 scale row = row[1 := NaN]" for row
    by (subst generateHeightMap_row_f32.simps)
      (simp add: r2 assms fsub_def Let_def)
  have r0: "generateHeightMap_row_f32 sinf cosf 0 2 0 scale [Fin 0, Fin 0]
              = [fmul (fsub (fractalNoise_default_f32 sinf cosf (fmul (int_to_f32 0) scale)
                                  (fmul (int_to_f32 0) scale))
                      (Fin (1 / 2))) (Fin 50), NaN]"
    by (subst generateHeightMap_row_f32.simps)
      (simp add: r1 Let_def del: fmul.simps)
  have rows1: "generateHeightMap_rows_f32 sinf cosf 1 2 1 scale hm = Some hm" for hm
    by (subst generateHeightMap_rows_f32.simps) simp
  show ?thesis
    unfolding generateHeightMap_f32_def
    by (subst generateHeightMap_rows_f32.simps)
      (simp add: vector_resize_def rows1 numeral_2_eq_2 r0 del: fmul.simps)
qed

lemma generateHeightMap_f32_huge_scale:
  assumes "sinf PInf = NaN"
  shows "generateHeightMap_f32 sinf cosf [] 2 1 (Fin (2 ^ 126))
           = Some [[fmul (fsub (fractalNoise_default_f32 sinf cosf (Fin 0) (Fin 0))
                      (Fin (1 / 2))) (Fin 50), NaN]]"
proof -
  have x1: "fmul (int_to_f32 1) (Fin (2 ^ 126)) = Fin (2 ^ 126)"
    using rnd_fixed[OF is_f32_1] rnd_fixed[OF is_f32_pow2_126] by (simp add: int_to_f32_def)
  have x0: "fmul (int_to_f32 0) (Fin (2 ^ 126)) = Fin 0"
    using rnd_fixed[OF is_f32_0] by (simp add: int_to_f32_def)
  have "fractalNoise_default_f32 sinf cosf (fmul (int_to_f32 1) (Fin (2 ^ 126)))
             (fmul (int_to_f32 0) (Fin (2 ^ 126))) = NaN"
    unfolding x1 by (rule fractalNoise_default_f32_huge[where sinf = sinf, OF assms])
  from generateHeightMap_f32_NaN_cell[OF this] show ?thesis unfolding x0 .
qed

text \<open>
  C7 (the code at the failing input): \<open>generateHeightMap(2, 1, 0x1p126f)\<close> on the empty
  \<open>heightMap\<close> builds one row of two cells, and the cell \<open>(x, y) = (1, 0)\<close> holds NaN,
  which is not in \<open>[-25, 25]\<close>: \<open>x * scale\<close> is \<open>2\<^sup>1\<^sup>2\<^sup>6\<close> and \<open>fractalNoise\<close> returns NaN
  there.
\<close>

theorem generateHeightMap_f32_NaN_elevation:
  assumes "sinf PInf = NaN"
  shows "\<exists>g. generateHeightMap_f32 sinf cosf [] 2 1 (Fin (2 ^ 126)) = Some g
           \<and> length g = 1 \<and> length (g ! 0) = 2 \<and> g ! 0 ! 1 = NaN
           \<and> \<not> fle (Fin (- 25)) (g ! 0 ! 1) \<and> \<not> fle (g ! 0 ! 1) (Fin 25)"
  unfolding generateHeightMap_f32_huge_scale[where sinf = sinf, OF assms] by simp

theorem generateHeightMap_f32_NaN_elevation_witness:
  "sin_rounded PInf = NaN
   \<and> (\<exists>g. generateHeightMap_f32 sin_rounded cos_rounded [] 2 1 (Fin (2 ^ 126)) = Some g
           \<and> length g = 1 \<and> length (g ! 0) = 2 \<and> g ! 0 ! 1 = NaN
           \<and> \<not> fle (Fin (- 25)) (g ! 0 ! 1) \<and> \<not> fle (g ! 0 ! 1) (Fin 25))"
  using generateHeightMap_f32_NaN_elevation[where sinf = sin_rounded and cosf = cos_rounded]
    sin_rounded_special(2) by blast

lemma generateVertices_row_spec:
  "0 \<le> x \<Longrightarrow> x \<le> w \<Longrightarrow>
   length (generateVertices_row x w y scale verts) = length verts + 3 * nat (w - x) \<and>
   (\<forall>k<length verts. generateVertices_row x w y scale verts ! k = verts ! k) \<and>
   (\<forall>i. x \<le> i \<and> i < w \<longrightarrow>
      generateVertices_row x w y scale verts ! (length verts + 3 * nat (i - x)) = of_int i * 10 \<and>
      generateVertices_row x w y scale verts ! (length verts + 3 * nat (i - x) + 1) =
        (fractalNoise_default (of_int i * scale) (of_int y * scale) - 0.5) * 50 \<and>
      generateVertices_row x w y scale verts ! (length verts + 3 * nat (i - x) + 2) = of_int y * 10)"
proof (induction x w y scale verts rule: generateVertices_row.induct)
  case (1 x w y scale verts)
  show ?case
  proof (cases "x < w")
    case False
    then show ?thesis using "1.prems" by (simp add: generateVertices_row.simps)
  next
    case True
    let ?e = "(fractalNoise_default (of_int x * scale) (of_int y * scale) - 0.5) * 50"
    let ?vs = "((verts @ [of_int x * 10]) @ [?e]) @ [of_int y * 10]"
    let ?r = "generateVertices_row (x + 1) w y scale ?vs"
    have step: "generateVertices_row x w y scale verts = ?r"
      using True by (subst generateVertices_row.simps) (simp add: Let_def)
    have x1: "0 \<le> x + 1" "x + 1 \<le> w" using True "1.prems" by simp_all
    note ih = "1.IH"[OF True refl refl refl x1]
    have len: "length ?r = length ?vs + 3 * nat (w - (x + 1))" using ih by blast
    have pre: "\<And>k. k < length ?vs \<Longrightarrow> ?r ! k = ?vs ! k" using ih by blast
    have ent: "\<And>i. x + 1 \<le> i \<Longrightarrow> i < w \<Longrightarrow>
      ?r ! (length ?vs + 3 * nat (i - (x + 1))) = of_int i * 10 \<and>
      ?r ! (length ?vs + 3 * nat (i - (x + 1)) + 1) =
        (fractalNoise_default (of_int i * scale) (of_int y * scale) - 0.5) * 50 \<and>
      ?r ! (length ?vs + 3 * nat (i - (x + 1)) + 2) = of_int y * 10" using ih by blast
    have lvs: "length ?vs = length verts + 3" by simp
    have L: "length ?r = length verts + 3 * nat (w - x)"
      using len lvs True by simp
    have P: "\<forall>k<length verts. ?r ! k = verts ! k"
    proof (intro allI impI)
      fix k assume k: "k < length verts"
      then have "?r ! k = ?vs ! k" using pre[of k] by simp
      then show "?r ! k = verts ! k" using k by (simp add: nth_append)
    qed
    have E: "\<forall>i. x \<le> i \<and> i < w \<longrightarrow>
      ?r ! (length verts + 3 * nat (i - x)) = of_int i * 10 \<and>
      ?r ! (length verts + 3 * nat (i - x) + 1) =
        (fractalNoise_default (of_int i * scale) (of_int y * scale) - 0.5) * 50 \<and>
      ?r ! (length verts + 3 * nat (i - x) + 2) = of_int y * 10"
    proof (intro allI impI)
      fix i assume i: "x \<le> i \<and> i < w"
      show "?r ! (length verts + 3 * nat (i - x)) = of_int i * 10 \<and>
      ?r ! (length verts + 3 * nat (i - x) + 1) =
        (fractalNoise_default (of_int i * scale) (of_int y * scale) - 0.5) * 50 \<and>
      ?r ! (length verts + 3 * nat (i - x) + 2) = of_int y * 10"
      proof (cases "i = x")
        case True
        have "?r ! (length verts) = ?vs ! (length verts)"
             "?r ! (length verts + 1) = ?vs ! (length verts + 1)"
             "?r ! (length verts + 2) = ?vs ! (length verts + 2)"
          using pre[of "length verts"] pre[of "length verts + 1"] pre[of "length verts + 2"]
          by simp_all
        then show ?thesis using True by (simp add: nth_append)
      next
        case False
        then have i1: "x + 1 \<le> i" "i < w" using i by simp_all
        have idx: "length ?vs + 3 * nat (i - (x + 1)) = length verts + 3 * nat (i - x)"
          using i1 lvs by simp
        show ?thesis using ent[OF i1] unfolding idx .
      qed
    qed
    show ?thesis unfolding step using L P E by blast
  qed
qed


lemma generateVertices_rows_spec:
  "0 \<le> y \<Longrightarrow> y \<le> h \<Longrightarrow> 0 \<le> w \<Longrightarrow>
   length (generateVertices_rows y w h scale verts) = length verts + 3 * nat w * nat (h - y) \<and>
   (\<forall>k<length verts. generateVertices_rows y w h scale verts ! k = verts ! k) \<and>
   (\<forall>j i. y \<le> j \<and> j < h \<and> 0 \<le> i \<and> i < w \<longrightarrow>
      generateVertices_rows y w h scale verts ! (length verts + 3 * (nat (j - y) * nat w + nat i))
        = of_int i * 10 \<and>
      generateVertices_rows y w h scale verts ! (length verts + 3 * (nat (j - y) * nat w + nat i) + 1)
        = (fractalNoise_default (of_int i * scale) (of_int j * scale) - 0.5) * 50 \<and>
      generateVertices_rows y w h scale verts ! (length verts + 3 * (nat (j - y) * nat w + nat i) + 2)
        = of_int j * 10)"
proof (induction y w h scale verts rule: generateVertices_rows.induct)
  case (1 y w h scale verts)
  show ?case
  proof (cases "y < h")
    case False
    then show ?thesis using "1.prems" by (simp add: generateVertices_rows.simps)
  next
    case True
    let ?vs = "generateVertices_row 0 w y scale verts"
    let ?r = "generateVertices_rows (y + 1) w h scale ?vs"
    have step: "generateVertices_rows y w h scale verts = ?r"
      using True by (subst generateVertices_rows.simps) simp
    have z: "(0::int) \<le> 0" by simp
    note row = generateVertices_row_spec[OF z "1.prems"(3), of y scale verts]
    have lvs: "length ?vs = length verts + 3 * nat w" using row by simp
    have rpre: "\<And>k. k < length verts \<Longrightarrow> ?vs ! k = verts ! k" using row by blast
    have rent: "\<And>i. 0 \<le> i \<Longrightarrow> i < w \<Longrightarrow>
      ?vs ! (length verts + 3 * nat i) = of_int i * 10 \<and>
      ?vs ! (length verts + 3 * nat i + 1) =
        (fractalNoise_default (of_int i * scale) (of_int y * scale) - 0.5) * 50 \<and>
      ?vs ! (length verts + 3 * nat i + 2) = of_int y * 10"
      using row by simp
    have y1: "0 \<le> y + 1" "y + 1 \<le> h" using True "1.prems" by simp_all
    note ih = "1.IH"[OF True y1 "1.prems"(3)]
    have len: "length ?r = length ?vs + 3 * nat w * nat (h - (y + 1))" using ih by blast
    have pre: "\<And>k. k < length ?vs \<Longrightarrow> ?r ! k = ?vs ! k" using ih by blast
    have ent: "\<And>j i. y + 1 \<le> j \<Longrightarrow> j < h \<Longrightarrow> 0 \<le> i \<Longrightarrow> i < w \<Longrightarrow>
      ?r ! (length ?vs + 3 * (nat (j - (y + 1)) * nat w + nat i)) = of_int i * 10 \<and>
      ?r ! (length ?vs + 3 * (nat (j - (y + 1)) * nat w + nat i) + 1)
        = (fractalNoise_default (of_int i * scale) (of_int j * scale) - 0.5) * 50 \<and>
      ?r ! (length ?vs + 3 * (nat (j - (y + 1)) * nat w + nat i) + 2) = of_int j * 10"
      using ih by blast
    have hy: "nat (h - y) = Suc (nat (h - (y + 1)))" using True by simp
    have L: "length ?r = length verts + 3 * nat w * nat (h - y)"
      unfolding len lvs hy by simp
    have P: "\<forall>k<length verts. ?r ! k = verts ! k"
    proof (intro allI impI)
      fix k assume k: "k < length verts"
      then have "k < length ?vs" using lvs by simp
      then show "?r ! k = verts ! k" using pre[of k] rpre[OF k] by simp
    qed
    have E: "\<forall>j i. y \<le> j \<and> j < h \<and> 0 \<le> i \<and> i < w \<longrightarrow>
      ?r ! (length verts + 3 * (nat (j - y) * nat w + nat i)) = of_int i * 10 \<and>
      ?r ! (length verts + 3 * (nat (j - y) * nat w + nat i) + 1)
        = (fractalNoise_default (of_int i * scale) (of_int j * scale) - 0.5) * 50 \<and>
      ?r ! (length verts + 3 * (nat (j - y) * nat w + nat i) + 2) = of_int j * 10"
    proof (intro allI impI)
      fix j i assume a: "y \<le> j \<and> j < h \<and> 0 \<le> i \<and> i < w"
      then have i: "0 \<le> i" "i < w" by simp_all
      show "?r ! (length verts + 3 * (nat (j - y) * nat w + nat i)) = of_int i * 10 \<and>
      ?r ! (length verts + 3 * (nat (j - y) * nat w + nat i) + 1)
        = (fractalNoise_default (of_int i * scale) (of_int j * scale) - 0.5) * 50 \<and>
      ?r ! (length verts + 3 * (nat (j - y) * nat w + nat i) + 2) = of_int j * 10"
      proof (cases "j = y")
        case True
        have ni: "nat i < nat w" using i by simp
        then have b: "length verts + 3 * nat i < length ?vs"
          "length verts + 3 * nat i + 1 < length ?vs"
          "length verts + 3 * nat i + 2 < length ?vs"
          unfolding lvs by linarith+
        show ?thesis using True rent[OF i] pre[OF b(1)] pre[OF b(2)] pre[OF b(3)] by simp
      next
        case False
        then have j1: "y + 1 \<le> j" "j < h" using a by simp_all
        have nj: "nat (j - y) = Suc (nat (j - (y + 1)))" using j1 by simp
        have idx: "length ?vs + 3 * (nat (j - (y + 1)) * nat w + nat i)
                 = length verts + 3 * (nat (j - y) * nat w + nat i)"
          unfolding lvs nj by simp
        show ?thesis using ent[OF j1 i] unfolding idx .
      qed
    qed
    show ?thesis unfolding step using L P E by blast
  qed
qed

lemma generateVertices_entries:
  assumes "0 \<le> x" "x < w" "0 \<le> y" "y < h"
  shows "generateVertices verts w h scale ! (length verts + 3 * (nat y * nat w + nat x))
           = of_int x * 10"
    and "generateVertices verts w h scale ! (length verts + 3 * (nat y * nat w + nat x) + 1)
           = (fractalNoise_default (of_int x * scale) (of_int y * scale) - 0.5) * 50"
    and "generateVertices verts w h scale ! (length verts + 3 * (nat y * nat w + nat x) + 2)
           = of_int y * 10"
    and "length (generateVertices verts w h scale) = length verts + 3 * nat w * nat h"
proof -
  have z: "(0::int) \<le> 0" by simp
  have h0: "0 \<le> h" and w0: "0 \<le> w" using assms by simp_all
  note rows = generateVertices_rows_spec[OF z h0 w0, of scale verts]
  have e: "generateVertices_rows 0 w h scale verts ! (length verts + 3 * (nat (y - 0) * nat w + nat x))
        = of_int x * 10 \<and>
      generateVertices_rows 0 w h scale verts ! (length verts + 3 * (nat (y - 0) * nat w + nat x) + 1)
        = (fractalNoise_default (of_int x * scale) (of_int y * scale) - 0.5) * 50 \<and>
      generateVertices_rows 0 w h scale verts ! (length verts + 3 * (nat (y - 0) * nat w + nat x) + 2)
        = of_int y * 10"
    using rows assms by blast
  show "generateVertices verts w h scale ! (length verts + 3 * (nat y * nat w + nat x))
           = of_int x * 10"
    and "generateVertices verts w h scale ! (length verts + 3 * (nat y * nat w + nat x) + 1)
           = (fractalNoise_default (of_int x * scale) (of_int y * scale) - 0.5) * 50"
    and "generateVertices verts w h scale ! (length verts + 3 * (nat y * nat w + nat x) + 2)
           = of_int y * 10"
    using e by (simp_all add: generateVertices_def)
  show "length (generateVertices verts w h scale) = length verts + 3 * nat w * nat h"
    using rows by (simp add: generateVertices_def)
qed

section \<open>Properties of the height queries\<close>

subsection \<open>Conversions, clamping and grid reads\<close>

lemma float_to_int_nonneg:
  "0 \<le> v \<Longrightarrow> v < 2 ^ 31 \<Longrightarrow> float_to_int v = Some \<lfloor>v\<rfloor>"
proof -
  assume a: "0 \<le> v" "v < 2 ^ 31"
  have "0 \<le> \<lfloor>v\<rfloor>" using a(1) by simp
  moreover have "\<lfloor>v\<rfloor> < 2 ^ 31" using a(2) by (simp add: floor_less_iff)
  ultimately show ?thesis using a(1) by (simp add: float_to_int_def in_int_range_def)
qed

lemma float_to_int_neg:
  "v < 0 \<Longrightarrow> - (2 ^ 31) \<le> v \<Longrightarrow> float_to_int v = Some \<lceil>v\<rceil>"
proof -
  assume a: "v < 0" "- (2 ^ 31) \<le> v"
  have "\<lceil>v\<rceil> \<le> 0" using a(1) by (simp add: ceiling_le_iff)
  moreover have "- (2 ^ 31) \<le> \<lceil>v\<rceil>" using a(2) by (simp add: le_ceiling_iff)
  ultimately show ?thesis using a(1) by (simp add: float_to_int_def in_int_range_def)
qed

lemma std_clamp_nonpos: "v \<le> 0 \<Longrightarrow> 0 \<le> hi \<Longrightarrow> std_clamp v 0 hi = 0"
  by (simp add: std_clamp_def)

lemma float_to_int_clamp:
  assumes "float_to_int v = Some t" and "0 \<le> hi"
  shows "std_clamp t 0 hi = std_clamp \<lfloor>v\<rfloor> 0 hi"
proof (cases "0 \<le> v")
  case True
  then show ?thesis using assms by (simp add: float_to_int_def Let_def split: if_splits)
next
  case False
  then have c: "\<lceil>v\<rceil> \<le> 0" and f: "\<lfloor>v\<rfloor> \<le> 0"
    by (simp_all add: ceiling_le_iff floor_le_iff)
  have t: "t = \<lceil>v\<rceil>"
    using False assms by (simp add: float_to_int_def Let_def split: if_splits)
  show ?thesis
    unfolding t std_clamp_nonpos[OF c assms(2)] std_clamp_nonpos[OF f assms(2)] ..
qed

lemma std_clamp_range: "lo \<le> hi \<Longrightarrow> lo \<le> std_clamp v lo hi \<and> std_clamp v lo hi \<le> hi"
  by (simp add: std_clamp_def)

lemma cell_in_grid:
  "is_grid hm w h \<Longrightarrow> 0 \<le> r \<Longrightarrow> nat r < h \<Longrightarrow> 0 \<le> c \<Longrightarrow> nat c < w \<Longrightarrow>
   cell hm r c = Some (hm ! nat r ! nat c)"
  by (simp add: cell_def is_grid_def)

lemma cell_clamped:
  assumes "is_grid hm (nat GRID_W) (nat GRID_H)"
  shows "cell hm (std_clamp r 0 (GRID_H - 1)) (std_clamp c 0 (GRID_W - 1))
         = Some (hm ! nat (std_clamp r 0 (GRID_H - 1)) ! nat (std_clamp c 0 (GRID_W - 1)))"
proof -
  have "0 \<le> std_clamp r 0 (GRID_H - 1) \<and> std_clamp r 0 (GRID_H - 1) \<le> GRID_H - 1"
    by (rule std_clamp_range) (simp add: GRID_H_def)
  moreover have "0 \<le> std_clamp c 0 (GRID_W - 1) \<and> std_clamp c 0 (GRID_W - 1) \<le> GRID_W - 1"
    by (rule std_clamp_range) (simp add: GRID_W_def)
  ultimately show ?thesis
    by (intro cell_in_grid[OF assms]) (simp_all only: GRID_W_def GRID_H_def, linarith+)
qed

lemma getHeight_defined:
  assumes "is_grid hm (nat GRID_W) (nat GRID_H)"
    and "float_to_int (x / 10) = Some gx" and "float_to_int (z / 10) = Some gz"
  shows "getHeight hm x z = Some (hm ! nat (std_clamp \<lfloor>z / 10\<rfloor> 0 (GRID_H - 1))
                                    ! nat (std_clamp \<lfloor>x / 10\<rfloor> 0 (GRID_W - 1)))"
proof -
  have cx: "std_clamp gx 0 (GRID_W - 1) = std_clamp \<lfloor>x / 10\<rfloor> 0 (GRID_W - 1)"
    by (rule float_to_int_clamp[OF assms(2)]) (simp add: GRID_W_def)
  have cz: "std_clamp gz 0 (GRID_H - 1) = std_clamp \<lfloor>z / 10\<rfloor> 0 (GRID_H - 1)"
    by (rule float_to_int_clamp[OF assms(3)]) (simp add: GRID_H_def)
  have "getHeight hm x z = cell hm (std_clamp gz 0 (GRID_H - 1)) (std_clamp gx 0 (GRID_W - 1))"
    using assms(2,3) by (simp add: getHeight_def)
  then show ?thesis unfolding cx cz using cell_clamped[OF assms(1)] by simp
qed

lemma float_to_int_in_range:
  assumes "\<bar>v\<bar> < 2 ^ 31"
  shows "\<exists>t. float_to_int v = Some t"
proof (cases "0 \<le> v")
  case True
  then show ?thesis using assms float_to_int_nonneg[of v] by simp
next
  case False
  then show ?thesis using assms float_to_int_neg[of v] by simp
qed

lemma getHeight_in_range:
  assumes "is_grid hm (nat GRID_W) (nat GRID_H)"
    and "\<bar>x / 10\<bar> < 2 ^ 31" and "\<bar>z / 10\<bar> < 2 ^ 31"
  shows "getHeight hm x z = Some (hm ! nat (std_clamp \<lfloor>z / 10\<rfloor> 0 (GRID_H - 1))
                                    ! nat (std_clamp \<lfloor>x / 10\<rfloor> 0 (GRID_W - 1)))"
proof -
  obtain gx where gx: "float_to_int (x / 10) = Some gx"
    using float_to_int_in_range[OF assms(2)] by blast
  obtain gz where gz: "float_to_int (z / 10) = Some gz"
    using float_to_int_in_range[OF assms(3)] by blast
  show ?thesis by (rule getHeight_defined[OF assms(1) gx gz])
qed

lemma getHeight_cell_centre:
  assumes "is_grid hm (nat GRID_W) (nat GRID_H)"
    and "0 \<le> i" "i < GRID_W" "0 \<le> j" "j < GRID_H"
  shows "getHeight hm ((of_int i + 0.5) * 10) ((of_int j + 0.5) * 10) = Some (hm ! nat j ! nat i)"
proof -
  have fi: "\<lfloor>(of_int i + 0.5) * 10 / (10::real)\<rfloor> = i" by (simp add: floor_eq_iff)
  have fj: "\<lfloor>(of_int j + 0.5) * 10 / (10::real)\<rfloor> = j" by (simp add: floor_eq_iff)
  have bi: "\<bar>(of_int i + 0.5) * 10 / (10::real)\<bar> < 2 ^ 31"
    using assms(2,3) by (simp add: GRID_W_def)
  have bj: "\<bar>(of_int j + 0.5) * 10 / (10::real)\<bar> < 2 ^ 31"
    using assms(4,5) by (simp add: GRID_H_def)
  show ?thesis
    unfolding getHeight_in_range[OF assms(1) bi bj] fi fj
    using assms(2-5) by (simp add: std_clamp_def)
qed

lemma float_to_int_range: "float_to_int v = Some t \<Longrightarrow> in_int_range t"
  by (simp add: float_to_int_def Let_def split: if_splits)

lemma getInterpolatedHeight_eval:
  assumes "is_grid hm (nat GRID_W) (nat GRID_H)"
    and "float_to_int (x / 10) = Some x0" and "float_to_int (z / 10) = Some z0"
    and "x0 + 1 < 2 ^ 31" and "z0 + 1 < 2 ^ 31"
  shows "getInterpolatedHeight hm x z =
     Some (mix (mix (hm ! nat (std_clamp z0 0 (GRID_H - 1)) ! nat (std_clamp x0 0 (GRID_W - 1)))
                    (hm ! nat (std_clamp z0 0 (GRID_H - 1)) ! nat (std_clamp (x0 + 1) 0 (GRID_W - 1)))
                    (x / 10 - of_int x0))
               (mix (hm ! nat (std_clamp (z0 + 1) 0 (GRID_H - 1)) ! nat (std_clamp x0 0 (GRID_W - 1)))
                    (hm ! nat (std_clamp (z0 + 1) 0 (GRID_H - 1)) ! nat (std_clamp (x0 + 1) 0 (GRID_W - 1)))
                    (x / 10 - of_int x0))
               (z / 10 - of_int z0))"
proof -
  have "in_int_range x0" "in_int_range z0"
    using assms(2,3) by (simp_all add: float_to_int_range)
  then have a: "int_add x0 1 = Some (x0 + 1)" "int_add z0 1 = Some (z0 + 1)"
    using assms(4,5) by (simp_all add: int_add_def in_int_range_def)
  show ?thesis
    unfolding getInterpolatedHeight_def
    by (simp add: assms(2,3) a cell_clamped[OF assms(1)] Let_def)
qed

lemma getInterpolatedHeight_midpoint:
  assumes "is_grid hm (nat GRID_W) (nat GRID_H)"
    and "0 \<le> i" "i + 1 < GRID_W" "0 \<le> j" "j < GRID_H"
  shows "getInterpolatedHeight hm ((of_int i + 0.5) * 10) (of_int j * 10)
         = Some ((hm ! nat j ! nat i + hm ! nat j ! nat (i + 1)) / 2)"
proof -
  have fx: "float_to_int ((of_int i + 0.5) * 10 / 10) = Some i"
  proof -
    have "\<lfloor>(of_int i + 0.5) * 10 / (10::real)\<rfloor> = i" by (simp add: floor_eq_iff)
    moreover have "0 \<le> (of_int i + 0.5) * 10 / (10::real)" using assms(2) by simp
    moreover have "(of_int i + 0.5) * 10 / (10::real) < 2 ^ 31"
      using assms(3) by (simp add: GRID_W_def)
    ultimately show ?thesis using float_to_int_nonneg by metis
  qed
  have fz: "float_to_int (of_int j * 10 / 10) = Some j"
    using float_to_int_nonneg[of "of_int j"] assms(4,5) by (simp add: GRID_H_def)
  have b: "i + 1 < 2 ^ 31" "j + 1 < 2 ^ 31" using assms(3,5) by (simp_all add: GRID_W_def GRID_H_def)
  have cx: "std_clamp i 0 (GRID_W - 1) = i" "std_clamp (i + 1) 0 (GRID_W - 1) = i + 1"
    using assms(2,3) by (simp_all add: std_clamp_def)
  have cz: "std_clamp j 0 (GRID_H - 1) = j"
    using assms(4,5) by (simp add: std_clamp_def)
  show ?thesis
    unfolding getInterpolatedHeight_eval[OF assms(1) fx fz b] cx cz
    by (simp add: mix_def field_simps)
qed

lemma getInterpolatedHeight_at_cell:
  assumes "is_grid hm (nat GRID_W) (nat GRID_H)"
    and "0 \<le> i" "i < GRID_W" "0 \<le> j" "j < GRID_H"
  shows "getInterpolatedHeight hm (of_int i * 10) (of_int j * 10) = Some (hm ! nat j ! nat i)"
proof -
  have fx: "float_to_int (of_int i * 10 / 10) = Some i"
    using float_to_int_nonneg[of "of_int i"] assms(2,3) by (simp add: GRID_W_def)
  have fz: "float_to_int (of_int j * 10 / 10) = Some j"
    using float_to_int_nonneg[of "of_int j"] assms(4,5) by (simp add: GRID_H_def)
  have b: "i + 1 < 2 ^ 31" "j + 1 < 2 ^ 31" using assms(3,5) by (simp_all add: GRID_W_def GRID_H_def)
  have cx: "std_clamp i 0 (GRID_W - 1) = i"
    using assms(2,3) by (simp add: std_clamp_def)
  have cz: "std_clamp j 0 (GRID_H - 1) = j"
    using assms(4,5) by (simp add: std_clamp_def)
  show ?thesis
    unfolding getInterpolatedHeight_eval[OF assms(1) fx fz b] cx cz
    by (simp add: mix_def)
qed

lemma getInterpolatedHeight_left_of_grid:
  assumes "is_grid hm (nat GRID_W) (nat GRID_H)"
  shows "getInterpolatedHeight hm (- 5) 0 = Some (1.5 * hm ! 0 ! 0 - 0.5 * hm ! 0 ! 1)"
proof -
  have "\<lceil>- 5 / 10 :: real\<rceil> = 0" by (simp add: ceiling_eq_iff)
  then have fx: "float_to_int (- 5 / 10) = Some 0"
    using float_to_int_neg[of "- 5 / 10"] by simp
  have fz: "float_to_int (0 / 10) = Some 0"
    using float_to_int_nonneg[of 0] by simp
  have b: "(0::int) + 1 < 2 ^ 31" by simp
  show ?thesis
    unfolding getInterpolatedHeight_eval[OF assms fx fz b b]
    by (simp add: mix_def std_clamp_def GRID_W_def GRID_H_def algebra_simps)
qed

lemma getHeight_at_cell:
  assumes "is_grid hm (nat GRID_W) (nat GRID_H)"
    and "0 \<le> i" "i < GRID_W" "0 \<le> j" "j < GRID_H"
  shows "getHeight hm (of_int i * 10) (of_int j * 10) = Some (hm ! nat j ! nat i)"
proof -
  have fi: "\<lfloor>of_int i * 10 / (10::real)\<rfloor> = i" by simp
  have fj: "\<lfloor>of_int j * 10 / (10::real)\<rfloor> = j" by simp
  have bi: "\<bar>of_int i * 10 / (10::real)\<bar> < 2 ^ 31"
    using assms(2,3) by (simp add: GRID_W_def)
  have bj: "\<bar>of_int j * 10 / (10::real)\<bar> < 2 ^ 31"
    using assms(4,5) by (simp add: GRID_H_def)
  show ?thesis
    unfolding getHeight_in_range[OF assms(1) bi bj] fi fj
    using assms(2-5) by (simp add: std_clamp_def)
qed

subsection \<open>Coordinates outside the grid\<close>

text \<open>
  Both queries agree with the same query at the nearest coordinate inside the grid
  whenever the conversions to \<open>int\<close> are defined and, for the bilinear query, no
  coordinate lies strictly between \<open>-10\<close> and \<open>0\<close>.
\<close>

lemma mix_same: "mix a a t = a"
  by (simp add: mix_def algebra_simps)

lemma mix_zero: "mix a b 0 = a"
  by (simp add: mix_def)

lemma cell_coord_div: "of_int m * 10 / (10::real) = of_int m"
proof -
  have "a * 10 / 10 = a" for a :: real by simp
  then show ?thesis .
qed

lemma float_to_int_of_int: "float_to_int (of_int m) = Some k \<Longrightarrow> k = m"
  by (simp add: float_to_int_def Let_def split: if_splits)

lemma floor_cell_coord: "\<lfloor>of_int m * 10 / (10::real)\<rfloor> = m"
proof -
  have "a * 10 / 10 = a" for a :: real by simp
  then have "of_int m * 10 / (10::real) = of_int m" .
  then show ?thesis by (simp only: floor_of_int)
qed

lemma clamp_coord_cases:
  assumes "1 \<le> n"
  shows "v < 0 \<Longrightarrow> clamp_coord n v = 0"
    and "0 \<le> v \<Longrightarrow> v \<le> of_int (n - 1) * 10 \<Longrightarrow> clamp_coord n v = v"
    and "of_int (n - 1) * 10 < v \<Longrightarrow> clamp_coord n v = of_int (n - 1) * 10"
  using assms by (simp_all add: clamp_coord_def)

lemma std_clamp_above: "0 \<le> hi \<Longrightarrow> hi \<le> v \<Longrightarrow> std_clamp v 0 hi = hi"
  by (simp add: std_clamp_def)

lemma cell_index_clamp:
  assumes "1 \<le> n"
  shows "std_clamp \<lfloor>clamp_coord n v / 10\<rfloor> 0 (n - 1) = std_clamp \<lfloor>v / 10\<rfloor> 0 (n - 1)"
proof -
  have hi: "0 \<le> n - 1" using assms by simp
  consider "v < 0" | "0 \<le> v \<and> v \<le> of_int (n - 1) * 10" | "of_int (n - 1) * 10 < v"
    by linarith
  then show ?thesis
  proof cases
    case 1
    then have f: "\<lfloor>v / 10\<rfloor> \<le> 0" by (simp add: floor_le_iff)
    have z: "(0::int) \<le> 0" by simp
    show ?thesis
      unfolding clamp_coord_cases(1)[OF assms 1] std_clamp_nonpos[OF f hi]
      using std_clamp_nonpos[OF z hi] by simp
  next
    case 2
    then show ?thesis using clamp_coord_cases(2)[OF assms, of v] by simp
  next
    case 3
    then have "of_int (n - 1) \<le> v / 10" by simp
    then have f: "n - 1 \<le> \<lfloor>v / 10\<rfloor>" by (simp add: le_floor_iff)
    have e: "\<lfloor>of_int (n - 1) * 10 / (10::real)\<rfloor> = n - 1" by (rule floor_cell_coord)
    have r: "n - 1 \<le> n - 1" by simp
    show ?thesis
      unfolding clamp_coord_cases(3)[OF assms 3] e std_clamp_above[OF hi f]
      by (rule std_clamp_above[OF hi r])
  qed
qed

lemma clamp_coord_range:
  assumes "1 \<le> n"
  shows "0 \<le> clamp_coord n v" and "clamp_coord n v \<le> of_int (n - 1) * 10"
  using assms by (simp_all add: clamp_coord_def)

lemma getHeight_clamps:
  assumes "is_grid hm (nat GRID_W) (nat GRID_H)"
    and "\<bar>x / 10\<bar> < 2 ^ 31" and "\<bar>z / 10\<bar> < 2 ^ 31"
  shows "getHeight hm x z = getHeight hm (clamp_coord GRID_W x) (clamp_coord GRID_H z)"
proof -
  have w: "1 \<le> GRID_W" and h: "1 \<le> GRID_H" by (simp_all add: GRID_W_def GRID_H_def)
  have bx: "\<bar>clamp_coord GRID_W x / 10\<bar> < 2 ^ 31"
    using clamp_coord_range[OF w, of x] by (simp add: GRID_W_def)
  have bz: "\<bar>clamp_coord GRID_H z / 10\<bar> < 2 ^ 31"
    using clamp_coord_range[OF h, of z] by (simp add: GRID_H_def)
  show ?thesis
    unfolding getHeight_in_range[OF assms] getHeight_in_range[OF assms(1) bx bz]
      cell_index_clamp[OF w] cell_index_clamp[OF h] ..
qed

lemma axis_clamp:
  assumes "1 \<le> n"
    and "float_to_int (v / 10) = Some k"
    and "float_to_int (clamp_coord n v / 10) = Some k'"
    and "v \<le> - 10 \<or> 0 \<le> v"
  shows "mix (f (std_clamp k 0 (n - 1))) (f (std_clamp (k + 1) 0 (n - 1))) (v / 10 - of_int k)
       = mix (f (std_clamp k' 0 (n - 1))) (f (std_clamp (k' + 1) 0 (n - 1)))
             (clamp_coord n v / 10 - of_int k')"
proof -
  have hi: "0 \<le> n - 1" using assms(1) by simp
  consider "v \<le> - 10" | "0 \<le> v \<and> v \<le> of_int (n - 1) * 10" | "of_int (n - 1) * 10 < v"
    using assms(4) by linarith
  then show ?thesis
  proof cases
    case 1
    then have neg: "\<not> 0 \<le> v / 10" by simp
    have "\<lceil>v / 10\<rceil> \<le> - 1" using 1 by (simp add: ceiling_le_iff)
    moreover have "k = \<lceil>v / 10\<rceil>"
      using assms(2) neg by (simp add: float_to_int_def Let_def split: if_splits)
    ultimately have k: "k \<le> 0" "k + 1 \<le> 0" by linarith+
    have c: "clamp_coord n v = 0" using 1 by (intro clamp_coord_cases(1)[OF assms(1)]) simp
    have k': "k' = 0" using assms(3) unfolding c
      by (simp add: float_to_int_def Let_def split: if_splits)
    have z: "(0::int) \<le> 0" by simp
    show ?thesis
      unfolding c k' std_clamp_nonpos[OF k(1) hi] std_clamp_nonpos[OF k(2) hi]
        std_clamp_nonpos[OF z hi]
      by (simp add: mix_same mix_zero)
  next
    case 2
    then have c: "clamp_coord n v = v" using clamp_coord_cases(2)[OF assms(1), of v] by simp
    have "k' = k" using assms(2,3) unfolding c by simp
    then show ?thesis unfolding c by simp
  next
    case 3
    then have pos: "0 \<le> v / 10" using hi by (simp add: order.trans[of 0 "of_int (n - 1) * 10" v])
    have "of_int (n - 1) \<le> v / 10" using 3 by simp
    then have "n - 1 \<le> \<lfloor>v / 10\<rfloor>" by (simp add: le_floor_iff)
    moreover have "k = \<lfloor>v / 10\<rfloor>"
      using assms(2) pos by (simp add: float_to_int_def Let_def split: if_splits)
    ultimately have k: "n - 1 \<le> k" "n - 1 \<le> k + 1" by linarith+
    have c: "clamp_coord n v = of_int (n - 1) * 10" by (rule clamp_coord_cases(3)[OF assms(1) 3])
    have k': "k' = n - 1" using assms(3) unfolding c cell_coord_div
      by (rule float_to_int_of_int)
    have r: "n - 1 \<le> n - 1" "n - 1 \<le> n - 1 + 1" by simp_all
    show ?thesis
      unfolding c k' std_clamp_above[OF hi k(1)] std_clamp_above[OF hi k(2)]
        std_clamp_above[OF hi r(1)] std_clamp_above[OF hi r(2)]
      by (simp add: mix_same)
  qed
qed

lemma getInterpolatedHeight_clamps:
  assumes "is_grid hm (nat GRID_W) (nat GRID_H)"
    and "- (2 ^ 31) \<le> x / 10" and "x / 10 < 2 ^ 31 - 1"
    and "- (2 ^ 31) \<le> z / 10" and "z / 10 < 2 ^ 31 - 1"
    and "x \<le> - 10 \<or> 0 \<le> x" and "z \<le> - 10 \<or> 0 \<le> z"
  shows "getInterpolatedHeight hm x z =
         getInterpolatedHeight hm (clamp_coord GRID_W x) (clamp_coord GRID_H z)"
proof -
  have w: "1 \<le> GRID_W" and h: "1 \<le> GRID_H" by (simp_all add: GRID_W_def GRID_H_def)
  have conv: "\<And>v. - (2 ^ 31) \<le> v \<Longrightarrow> v < 2 ^ 31 - 1 \<Longrightarrow>
                \<exists>k. float_to_int v = Some k \<and> k + 1 < 2 ^ 31"
  proof -
    fix v :: real assume a: "- (2 ^ 31) \<le> v" "v < 2 ^ 31 - 1"
    show "\<exists>k. float_to_int v = Some k \<and> k + 1 < 2 ^ 31"
    proof (cases "0 \<le> v")
      case True
      have "\<lfloor>v\<rfloor> < 2 ^ 31 - 1" using a(2) by (simp add: floor_less_iff)
      then show ?thesis using float_to_int_nonneg[OF True] a(2) by simp
    next
      case False
      then have "\<lceil>v\<rceil> \<le> 0" by (simp add: ceiling_le_iff)
      then show ?thesis using float_to_int_neg[of v] False a(1) by simp
    qed
  qed
  obtain x0 where x0: "float_to_int (x / 10) = Some x0" "x0 + 1 < 2 ^ 31"
    using conv[OF assms(2,3)] by blast
  obtain z0 where z0: "float_to_int (z / 10) = Some z0" "z0 + 1 < 2 ^ 31"
    using conv[OF assms(4,5)] by blast
  have "- (2 ^ 31) \<le> clamp_coord GRID_W x / 10" "clamp_coord GRID_W x / 10 < 2 ^ 31 - 1"
    using clamp_coord_range[OF w, of x] by (simp_all add: GRID_W_def)
  then obtain x0' where x0': "float_to_int (clamp_coord GRID_W x / 10) = Some x0'"
    "x0' + 1 < 2 ^ 31" using conv by blast
  have "- (2 ^ 31) \<le> clamp_coord GRID_H z / 10" "clamp_coord GRID_H z / 10 < 2 ^ 31 - 1"
    using clamp_coord_range[OF h, of z] by (simp_all add: GRID_H_def)
  then obtain z0' where z0': "float_to_int (clamp_coord GRID_H z / 10) = Some z0'"
    "z0' + 1 < 2 ^ 31" using conv by blast
  note ax = axis_clamp[OF w x0(1) x0'(1) assms(6)]
  note az = axis_clamp[OF h z0(1) z0'(1) assms(7)]
  show ?thesis
    unfolding getInterpolatedHeight_eval[OF assms(1) x0(1) z0(1) x0(2) z0(2)]
      getInterpolatedHeight_eval[OF assms(1) x0'(1) z0'(1) x0'(2) z0'(2)]
      ax[of "\<lambda>c. hm ! nat (std_clamp z0 0 (GRID_H - 1)) ! nat c"]
      ax[of "\<lambda>c. hm ! nat (std_clamp (z0 + 1) 0 (GRID_H - 1)) ! nat c"]
    using az[of "\<lambda>r. mix (hm ! nat r ! nat (std_clamp x0' 0 (GRID_W - 1)))
                        (hm ! nat r ! nat (std_clamp (x0' + 1) 0 (GRID_W - 1)))
                        (clamp_coord GRID_W x / 10 - of_int x0')"]
    by simp
qed

subsection \<open>The nearest-cell query\<close>

text \<open>
  C8: the claim is that for every world coordinate pair \<open>getHeight\<close> returns the cell
  at the floored and clamped index. For coordinates whose quotient by the spacing fits
  an \<open>int\<close> this is \<open>getHeight_in_range\<close>, and at every cell centre it is
  \<open>getHeight_cell_centre\<close>. At \<open>x = 2 ^ 35\<close> the quotient is about
  \<open>3.4 * 10 ^ 9\<close>, above the largest \<open>int\<close>: the conversion is undefined and the
  query has no defined result.
\<close>

theorem getHeight_undefined_far_out: "getHeight hm (2 ^ 35) 0 = None"
proof -
  have "\<lfloor>(2 ^ 35 / 10 :: real)\<rfloor> = 3435973836" by (simp add: floor_eq_iff)
  then have "float_to_int (2 ^ 35 / 10) = None"
    by (simp add: float_to_int_def in_int_range_def)
  then show ?thesis by (simp add: getHeight_def)
qed

subsection \<open>The bilinear query inside the grid\<close>

lemma is_grid_slope: "is_grid (slope_grid k n) n n"
  by (simp add: is_grid_def slope_grid_def)

lemma slope_grid_cell: "r < n \<Longrightarrow> c < n \<Longrightarrow> slope_grid k n ! r ! c = k * real c"
  by (simp add: slope_grid_def)

text \<open>
  C9: on a grid of the fixed size, the bilinear query at the coordinate of an in-bounds
  cell \<open>(i, j)\<close> returns that cell's elevation, and at the midpoint between the cell
  and its right neighbour (when that is in bounds too) it returns the mean of the two
  elevations.
\<close>

theorem bilinear_midpoint_and_corner:
  assumes "is_grid hm (nat GRID_W) (nat GRID_H)"
    and "0 \<le> i" and "i < GRID_W" and "0 \<le> j" and "j < GRID_H"
  shows "getInterpolatedHeight hm (of_int i * 10) (of_int j * 10) = Some (hm ! nat j ! nat i)
     \<and> (i + 1 < GRID_W \<longrightarrow>
          getInterpolatedHeight hm ((of_int i + 0.5) * 10) (of_int j * 10)
            = Some ((hm ! nat j ! nat i + hm ! nat j ! nat (i + 1)) / 2))"
  using getInterpolatedHeight_at_cell[OF assms]
        getInterpolatedHeight_midpoint[OF assms(1,2) _ assms(4,5)]
  by blast

theorem bilinear_midpoint_and_corner_witness:
  "is_grid (slope_grid 1 256) (nat GRID_W) (nat GRID_H)
   \<and> (0::int) \<le> 0 \<and> 0 < GRID_W \<and> 0 < GRID_H \<and> 0 + 1 < GRID_W
   \<and> getInterpolatedHeight (slope_grid 1 256) (of_int 0 * 10) (of_int 0 * 10) = Some 0
   \<and> getInterpolatedHeight (slope_grid 1 256) ((of_int 0 + 0.5) * 10) (of_int 0 * 10) = Some (1 / 2)"
proof -
  have g: "is_grid (slope_grid 1 256) (nat GRID_W) (nat GRID_H)"
    using is_grid_slope[of 1 256] by (simp add: GRID_W_def GRID_H_def)
  have z: "(0::int) \<le> 0" by simp
  have w: "0 < GRID_W" "0 + 1 < GRID_W" by (simp_all add: GRID_W_def)
  have h: "0 < GRID_H" by (simp add: GRID_H_def)
  have c: "(slope_grid 1 256) ! nat 0 ! nat 0 = 0" "(slope_grid 1 256) ! nat 0 ! nat (0 + 1) = 1"
    by (simp_all add: slope_grid_cell)
  show ?thesis
    using bilinear_midpoint_and_corner[OF g z w(1) z h] g z w h
    unfolding c by simp
qed

subsection \<open>Two cells of the grid the program generates\<close>

lemma sin_lower: "0 \<le> x \<Longrightarrow> x - x ^ 3 / 6 \<le> sin (x::real)"
proof -
  assume x: "0 \<le> x"
  have m: "\<bar>sin x - (\<Sum>m<Suc (Suc (Suc 0)). sin_coeff m * x ^ m)\<bar>
          \<le> inverse (fact (Suc (Suc (Suc 0)))) * \<bar>x\<bar> ^ (Suc (Suc (Suc 0)))"
    by (rule Maclaurin_sin_bound)
  have s: "(\<Sum>m<Suc (Suc (Suc 0)). sin_coeff m * x ^ m) = x"
    by (simp add: sin_coeff_def)
  have c: "inverse (fact (Suc (Suc (Suc 0)))) * \<bar>x\<bar> ^ (Suc (Suc (Suc 0))) = x ^ 3 / 6"
    using x by (simp add: power3_eq_cube)
  have "\<bar>sin x - x\<bar> \<le> x ^ 3 / 6" using m unfolding s c .
  then show ?thesis by linarith
qed

lemma fractalNoise_default_row0:
  "fractalNoise_default x 0 =
     (32 * sin (x / 2) + 32 + (112 * sin x + 112) / 5 + (392 * sin (x * 2) + 392) / 25 +
      (1372 * sin (x * 4) + 1372) / 125 + (4802 * sin (x * 8) + 4802) / 625 +
      (16807 * sin (x * 16) + 16807) / 3125) / (588234 / 3125)"
  by (simp add: fractalNoise_default_def fractalNoise_def fractalNoise_loop.simps)

lemma fractalNoise_default_col0: "fractalNoise_default 0 y = 1 / 2"
  by (simp add: fractalNoise_default_def fractalNoise_def fractalNoise_loop.simps)

lemma layers_above_half:
  fixes a b c d e f :: real
  assumes "0 < a" "0 < b" "0 < c" "0 < d" "0.9 \<le> e" "- 1 \<le> f"
  shows "588234 / 3125 / 2 <
     (32 * a + 32 + (112 * b + 112) / 5 + (392 * c + 392) / 25 +
      (1372 * d + 1372) / 125 + (4802 * e + 4802) / 625 + (16807 * f + 16807) / 3125)"
proof -
  have "0 < 32 * a + 112 * b / 5 + 392 * c / 25 + 1372 * d / 125" using assms(1-4) by simp
  moreover have "0 < 4802 * e / 625 + 16807 * f / 3125" using assms(5,6) by linarith
  ultimately show ?thesis by (simp add: add_divide_distrib)
qed

lemma half_div: "(m::real) / 2 < t \<Longrightarrow> 0 < m \<Longrightarrow> 1 / 2 < t / m"
  by (simp add: field_simps)

lemma noise_above_half: "1 / 2 < fractalNoise_default 0.15 0"
proof -
  have p1: "0 < sin (0.15 / 2 :: real)" by (rule sin_gt_zero_02) simp_all
  have p2: "0 < sin (0.15 :: real)" by (rule sin_gt_zero_02) simp_all
  have p3: "0 < sin (0.15 * 2 :: real)" by (rule sin_gt_zero_02) simp_all
  have p4: "0 < sin (0.15 * 4 :: real)" by (rule sin_gt_zero_02) simp_all
  have "(0.15 * 8 :: real) - (0.15 * 8) ^ 3 / 6 \<le> sin (0.15 * 8)"
    by (rule sin_lower) simp
  then have p5: "0.9 \<le> sin (0.15 * 8 :: real)" by (simp add: power3_eq_cube)
  have p6: "- 1 \<le> sin (0.15 * 16 :: real)" by (rule sin_ge_minus_one)
  have "588234 / 3125 / 2 <
     (32 * sin (0.15 / 2 :: real) + 32 + (112 * sin 0.15 + 112) / 5 + (392 * sin (0.15 * 2) + 392) / 25 +
      (1372 * sin (0.15 * 4) + 1372) / 125 + (4802 * sin (0.15 * 8) + 4802) / 625 +
      (16807 * sin (0.15 * 16) + 16807) / 3125)"
    by (rule layers_above_half[OF p1 p2 p3 p4 p5 p6])
  then show ?thesis
    unfolding fractalNoise_default_row0[of "0.15"]
    by (rule half_div) simp
qed

text \<open>
  C2: the claim is that outside the terrain extent both queries return what a query at
  the nearest edge cell returns. On the grid the program generates
  (\<open>generateHeightMap\<close> with 256, 256 and scale 0.15) and at \<open>(x, z) = (-5, 0)\<close>, the
  nearest edge cell is \<open>(0, 0)\<close> with elevation 0, which \<open>getHeight\<close> returns there
  and \<open>getInterpolatedHeight\<close> returns at \<open>(0, 0)\<close>; but \<open>getInterpolatedHeight\<close>
  at \<open>(-5, 0)\<close> returns a negative value: the conversion truncates \<open>-0.5\<close> to 0, the
  fraction is \<open>-0.5\<close>, and the blend extrapolates beyond cell \<open>(0, 0)\<close> away from cell
  \<open>(1, 0)\<close>.
\<close>

theorem bilinear_extrapolates_left_of_grid:
  "\<exists>g v. generateHeightMap [] GRID_W GRID_H 0.15 = Some g
     \<and> getHeight g (- 5) 0 = Some 0
     \<and> getInterpolatedHeight g 0 0 = Some 0
     \<and> getInterpolatedHeight g (- 5) 0 = Some v \<and> v < 0"
proof -
  have w0: "0 \<le> GRID_W" and h0: "0 \<le> GRID_H" by (simp_all add: GRID_W_def GRID_H_def)
  from generateHeightMap_result[OF w0 h0, of "[]" "0.15"]
  obtain g where g: "generateHeightMap [] GRID_W GRID_H 0.15 = Some g"
    "is_grid g (nat GRID_W) (nat GRID_H)"
    "\<forall>j. 0 \<le> j \<and> j < GRID_H \<longrightarrow> length (g ! nat j) = nat GRID_W \<and>
        (\<forall>i. 0 \<le> i \<and> i < GRID_W \<longrightarrow>
           g ! nat j ! nat i =
             (fractalNoise_default (of_int i * 0.15) (of_int j * 0.15) - 0.5) * 50)"
    by blast
  have r0: "(0::int) \<le> 0 \<and> 0 < GRID_H" by (simp add: GRID_H_def)
  have i0: "(0::int) \<le> 0 \<and> 0 < GRID_W" by (simp add: GRID_W_def)
  have i1: "(0::int) \<le> 1 \<and> 1 < GRID_W" by (simp add: GRID_W_def)
  have "g ! nat 0 ! nat 0 = (fractalNoise_default (of_int 0 * 0.15) (of_int 0 * 0.15) - 0.5) * 50"
    using g(3) r0 i0 by blast
  then have c00: "g ! 0 ! 0 = 0" by (simp add: fractalNoise_default_col0)
  have "g ! nat 0 ! nat 1 = (fractalNoise_default (of_int 1 * 0.15) (of_int 0 * 0.15) - 0.5) * 50"
    using g(3) r0 i1 by blast
  then have "g ! 0 ! 1 = (fractalNoise_default 0.15 0 - 0.5) * 50" by simp
  then have c01: "0 < g ! 0 ! 1" using noise_above_half by simp
  have gh: "getHeight g (- 5) 0 = Some 0"
  proof -
    have f: "\<lfloor>- 5 / 10 :: real\<rfloor> = - 1" by (simp add: floor_eq_iff)
    have "getHeight g (- 5) 0 = Some (g ! nat (std_clamp \<lfloor>0 / 10 :: real\<rfloor> 0 (GRID_H - 1))
                                    ! nat (std_clamp \<lfloor>- 5 / 10 :: real\<rfloor> 0 (GRID_W - 1)))"
      by (rule getHeight_in_range[OF g(2)]) simp_all
    then show ?thesis unfolding f by (simp add: std_clamp_def GRID_W_def GRID_H_def c00)
  qed
  have gi0: "getInterpolatedHeight g 0 0 = Some 0"
    using getInterpolatedHeight_at_cell[OF g(2), of 0 0] r0 i0 c00 by simp
  have gi: "getInterpolatedHeight g (- 5) 0 = Some (- 0.5 * g ! 0 ! 1)"
    using getInterpolatedHeight_left_of_grid[OF g(2)] c00 by simp
  have "- 0.5 * g ! 0 ! 1 < 0" using c01 by simp
  with g(1) gh gi0 gi show ?thesis by blast
qed

subsection \<open>Mesh vertices and height queries\<close>

text \<open>
  C10: for the same \<open>w\<close>, \<open>h\<close> and \<open>scale\<close>, the three floats that
  \<open>generateVertices\<close> appends for cell \<open>(x, y)\<close> are \<open>x * 10\<close>, the elevation
  \<open>heightMap[y][x]\<close> that \<open>generateHeightMap\<close> stores (both are
  \<open>(fractalNoise (x * scale) (y * scale) - 0.5) * 50\<close>) and \<open>y * 10\<close>; and for the
  grid size the queries are written for, \<open>getHeight\<close> at the vertex's \<open>(x, z)\<close> returns
  the vertex's height.
\<close>

theorem vertices_match_heightmap:
  assumes "0 \<le> x" and "x < w" and "0 \<le> y" and "y < h"
  shows "\<exists>g. generateHeightMap hm w h scale = Some g
     \<and> generateVertices verts w h scale ! (length verts + 3 * (nat y * nat w + nat x))
           = of_int x * 10
     \<and> generateVertices verts w h scale ! (length verts + 3 * (nat y * nat w + nat x) + 1)
           = g ! nat y ! nat x
     \<and> generateVertices verts w h scale ! (length verts + 3 * (nat y * nat w + nat x) + 2)
           = of_int y * 10
     \<and> g ! nat y ! nat x = (fractalNoise (of_int x * scale) (of_int y * scale) 6 0.7 - 0.5) * 50
     \<and> (w = GRID_W \<and> h = GRID_H \<longrightarrow>
          getHeight g (of_int x * 10) (of_int y * 10) = Some (g ! nat y ! nat x))"
proof -
  have w0: "0 \<le> w" and h0: "0 \<le> h" using assms by simp_all
  from generateHeightMap_result[OF w0 h0, of hm scale]
  obtain g where g: "generateHeightMap hm w h scale = Some g" "is_grid g (nat w) (nat h)"
    "\<forall>j. 0 \<le> j \<and> j < h \<longrightarrow> length (g ! nat j) = nat w \<and>
        (\<forall>i. 0 \<le> i \<and> i < w \<longrightarrow>
           g ! nat j ! nat i =
             (fractalNoise_default (of_int i * scale) (of_int j * scale) - 0.5) * 50)"
    by blast
  have yy: "0 \<le> y \<and> y < h" and xx: "0 \<le> x \<and> x < w" using assms by simp_all
  have c: "g ! nat y ! nat x =
      (fractalNoise_default (of_int x * scale) (of_int y * scale) - 0.5) * 50"
    using g(3) yy xx by blast
  note v = generateVertices_entries[OF assms, of verts scale]
  have q: "w = GRID_W \<and> h = GRID_H \<longrightarrow>
          getHeight g (of_int x * 10) (of_int y * 10) = Some (g ! nat y ! nat x)"
    using getHeight_at_cell[of g x y] g(2) assms by blast
  have d: "g ! nat y ! nat x = (fractalNoise (of_int x * scale) (of_int y * scale) 6 0.7 - 0.5) * 50"
    using c by (simp add: fractalNoise_default_def)
  show ?thesis using g(1) v(1) v(2) v(3) c d q by (intro exI[of _ g]) simp
qed

theorem vertices_match_heightmap_witness:
  "(0::int) \<le> 1 \<and> 1 < GRID_W \<and> (0::int) \<le> 0 \<and> 0 < GRID_H
   \<and> (\<exists>g. generateHeightMap [] GRID_W GRID_H 0.15 = Some g
     \<and> generateVertices [] GRID_W GRID_H 0.15 ! (length ([]::real list) + 3 * (nat 0 * nat GRID_W + nat 1))
           = of_int 1 * 10
     \<and> generateVertices [] GRID_W GRID_H 0.15 ! (length ([]::real list) + 3 * (nat 0 * nat GRID_W + nat 1) + 1)
           = g ! nat 0 ! nat 1
     \<and> generateVertices [] GRID_W GRID_H 0.15 ! (length ([]::real list) + 3 * (nat 0 * nat GRID_W + nat 1) + 2)
           = of_int 0 * 10
     \<and> getHeight g (of_int 1 * 10) (of_int 0 * 10) = Some (g ! nat 0 ! nat 1))"
proof -
  have a: "(0::int) \<le> 1" "1 < GRID_W" "(0::int) \<le> 0" "0 < GRID_H"
    by (simp_all add: GRID_W_def GRID_H_def)
  show ?thesis
    using a vertices_match_heightmap[OF a, of "[]" "0.15" "[]"] by blast
qed

section \<open>Properties of the spawn search\<close>

lemma find_append_case:
  "List.find P (xs @ ys) = (case List.find P xs of None \<Rightarrow> List.find P ys | Some x \<Rightarrow> Some x)"
  by (induction xs) simp_all

lemma findSpawnPoint_row_find:
  assumes "is_grid hm w h" and "y + 1 < h"
  shows "n = w - 5 - x \<Longrightarrow>
     findSpawnPoint_row hm spacing ch cr (int w) (int y) (int x) =
       (case List.find (flat_cell hm) (map (\<lambda>x. (x, y)) [x..<w - 5]) of
          Some c \<Rightarrow> Found (spawn_at hm spacing ch cr c)
        | None \<Rightarrow> NotFound)"
proof (induction n arbitrary: x)
  case 0
  then have "\<not> int x < int w - 5" by linarith
  moreover have "[x..<w - 5] = []" using 0 by simp
  ultimately show ?case by (subst findSpawnPoint_row.simps) simp
next
  case (Suc n)
  then have xw: "x < w - 5" by linarith
  then have lt: "int x < int w - 5" by linarith
  have rows: "length hm = h" and cols: "\<And>r. r < h \<Longrightarrow> length (hm ! r) = w"
    using assms(1) by (simp_all add: is_grid_def)
  have c0: "cell hm (int y) (int x) = Some (hm ! y ! x)"
    using rows cols[of y] assms(2) xw by (simp add: cell_def)
  have c1: "cell hm (int y) (int x + 1) = Some (hm ! y ! (x + 1))"
    using rows cols[of y] assms(2) xw by (simp add: cell_def nat_add_distrib)
  have c2: "cell hm (int y + 1) (int x) = Some (hm ! (y + 1) ! x)"
    using rows cols[of "y + 1"] assms(2) xw by (simp add: cell_def nat_add_distrib)
  have upt: "[x..<w - 5] = x # [Suc x..<w - 5]" using xw by (rule upt_conv_Cons)
  have ih: "findSpawnPoint_row hm spacing ch cr (int w) (int y) (int (Suc x)) =
       (case List.find (flat_cell hm) (map (\<lambda>x. (x, y)) [Suc x..<w - 5]) of
          Some c \<Rightarrow> Found (spawn_at hm spacing ch cr c)
        | None \<Rightarrow> NotFound)"
    using Suc.prems by (intro Suc.IH) linarith
  have ih': "findSpawnPoint_row hm spacing ch cr (int w) (int y) (int x + 1) =
       (case List.find (flat_cell hm) (map (\<lambda>x. (x, y)) [Suc x..<w - 5]) of
          Some c \<Rightarrow> Found (spawn_at hm spacing ch cr c)
        | None \<Rightarrow> NotFound)"
    using ih by (simp add: algebra_simps)
  have unfold: "findSpawnPoint_row hm spacing ch cr (int w) (int y) (int x) =
      (if \<bar>hm ! y ! x - hm ! y ! (x + 1)\<bar> < 1 \<and> \<bar>hm ! y ! x - hm ! (y + 1) ! x\<bar> < 1
       then Found (Vec3 (of_int (int x) * spacing) (hm ! y ! x + ch * 0.5 + cr + 0.1)
                        (of_int (int y) * spacing))
       else findSpawnPoint_row hm spacing ch cr (int w) (int y) (int x + 1))"
    by (subst findSpawnPoint_row.simps)
       (simp only: lt if_True c0 c1 c2 option.case Let_def)
  show ?case
  proof (cases "flat_cell hm (x, y)")
    case True
    then have "\<bar>hm ! y ! x - hm ! y ! (x + 1)\<bar> < 1 \<and> \<bar>hm ! y ! x - hm ! (y + 1) ! x\<bar> < 1"
      by (simp add: flat_cell_def)
    then have "findSpawnPoint_row hm spacing ch cr (int w) (int y) (int x) =
      Found (Vec3 (real x * spacing) (hm ! y ! x + ch / 2 + cr + 0.1) (real y * spacing))"
      unfolding unfold by simp
    then show ?thesis using True unfolding upt by (simp add: spawn_at_def)
  next
    case False
    then have "\<not> (\<bar>hm ! y ! x - hm ! y ! (x + 1)\<bar> < 1 \<and> \<bar>hm ! y ! x - hm ! (y + 1) ! x\<bar> < 1)"
      by (simp add: flat_cell_def)
    then have "findSpawnPoint_row hm spacing ch cr (int w) (int y) (int x) =
      findSpawnPoint_row hm spacing ch cr (int w) (int y) (int x + 1)"
      unfolding unfold by (simp only: if_False)
    then show ?thesis using False unfolding upt ih' by simp
  qed
qed

lemma findSpawnPoint_rows_find:
  assumes "is_grid hm w h"
  shows "n = h - 5 - y \<Longrightarrow>
     findSpawnPoint_rows hm spacing ch cr (int w) (int h) (int y) =
       Some (case List.find (flat_cell hm)
                    (concat (map (\<lambda>y. map (\<lambda>x. (x, y)) [5..<w - 5]) [y..<h - 5])) of
               Some c \<Rightarrow> spawn_at hm spacing ch cr c
             | None \<Rightarrow> Vec3 0 50 0)"
proof (induction n arbitrary: y)
  case 0
  then have "\<not> int y < int h - 5" by linarith
  moreover have "[y..<h - 5] = []" using 0 by simp
  ultimately show ?case by (subst findSpawnPoint_rows.simps) simp
next
  case (Suc n)
  then have yh: "y < h - 5" by linarith
  then have lt: "int y < int h - 5" and y1: "y + 1 < h" by linarith+
  have upt: "[y..<h - 5] = y # [Suc y..<h - 5]" using yh by (rule upt_conv_Cons)
  have row: "findSpawnPoint_row hm spacing ch cr (int w) (int y) 5 =
       (case List.find (flat_cell hm) (map (\<lambda>x. (x, y)) [5..<w - 5]) of
          Some c \<Rightarrow> Found (spawn_at hm spacing ch cr c)
        | None \<Rightarrow> NotFound)"
    using findSpawnPoint_row_find[OF assms y1 refl, of spacing ch cr 5]
    by simp
  have ih: "findSpawnPoint_rows hm spacing ch cr (int w) (int h) (int (Suc y)) =
       Some (case List.find (flat_cell hm)
                    (concat (map (\<lambda>y. map (\<lambda>x. (x, y)) [5..<w - 5]) [Suc y..<h - 5])) of
               Some c \<Rightarrow> spawn_at hm spacing ch cr c
             | None \<Rightarrow> Vec3 0 50 0)"
    using Suc.prems by (intro Suc.IH) linarith
  have ih': "findSpawnPoint_rows hm spacing ch cr (int w) (int h) (int y + 1) =
       Some (case List.find (flat_cell hm)
                    (concat (map (\<lambda>y. map (\<lambda>x. (x, y)) [5..<w - 5]) [Suc y..<h - 5])) of
               Some c \<Rightarrow> spawn_at hm spacing ch cr c
             | None \<Rightarrow> Vec3 0 50 0)"
    using ih by (simp add: algebra_simps)
  have unfold: "findSpawnPoint_rows hm spacing ch cr (int w) (int h) (int y) =
      (case findSpawnPoint_row hm spacing ch cr (int w) (int y) 5 of
              Found v \<Rightarrow> Some v
            | BadRead \<Rightarrow> None
            | NotFound \<Rightarrow> findSpawnPoint_rows hm spacing ch cr (int w) (int h) (int y + 1))"
    by (subst findSpawnPoint_rows.simps) (simp only: lt if_True)
  show ?case
  proof (cases "List.find (flat_cell hm) (map (\<lambda>x. (x, y)) [5..<w - 5])")
    case None
    then show ?thesis unfolding unfold row ih' upt by (simp add: find_append_case)
  next
    case (Some c)
    then show ?thesis unfolding unfold row upt by (simp add: find_append_case)
  qed
qed

lemma findSpawnPoint_find:
  assumes "is_grid hm w h" and "0 < h"
  shows "findSpawnPoint hm spacing ch cr =
         Some (first_flat_spawn hm w h spacing ch cr)"
proof -
  have ne: "hm \<noteq> []" and lh: "length hm = h" using assms by (auto simp: is_grid_def)
  have "hm ! 0 \<in> set hm" using ne by simp
  then have lw: "length (hm ! 0) = w" using assms(1) by (simp add: is_grid_def)
  show ?thesis
    using findSpawnPoint_rows_find[OF assms(1) refl, of spacing ch cr 5]
    by (simp add: findSpawnPoint_def ne lh lw first_flat_spawn_def scan_order_def)
qed

lemma first_flat_spawn_flat_grid:
  assumes "11 \<le> w" and "11 \<le> h"
    and "\<forall>r<h. \<forall>c<w. hm ! r ! c = e"
  shows "first_flat_spawn hm w h spacing ch cr =
         Vec3 (5 * spacing) (e + ch / 2 + cr + 0.1) (5 * spacing)"
proof -
  have w5: "5 < w - 5" and h5: "5 < h - 5" using assms(1,2) by linarith+
  have so: "scan_order w h =
      ((5, 5) # map (\<lambda>x. (x, 5)) [Suc 5..<w - 5])
      @ concat (map (\<lambda>y. map (\<lambda>x. (x, y)) [5..<w - 5]) [Suc 5..<h - 5])"
    unfolding scan_order_def upt_conv_Cons[OF h5]
    by (simp add: upt_conv_Cons[OF w5])
  have c: "hm ! 5 ! 5 = e" "hm ! 5 ! 6 = e" "hm ! 6 ! 5 = e"
    using assms by simp_all
  then have "flat_cell hm (5, 5)" by (simp add: flat_cell_def)
  then show ?thesis
    unfolding first_flat_spawn_def so by (simp add: spawn_at_def c)
qed

text \<open>
  C5: on a grid of \<open>h\<close> rows and \<open>w\<close> columns, both at least 11,
  \<open>findSpawnPoint\<close> returns (and never fails) the position
  \<open>(x * spacing, elevation + capsuleHeight / 2 + capsuleRadius + 0.1, y * spacing)\<close> of
  the first cell, in row-major order over \<open>x\<close> in \<open>[5, w - 5)\<close> and \<open>y\<close> in
  \<open>[5, h - 5)\<close>, whose elevation differs by less than 1 from both its right and its
  lower neighbour, and \<open>(0, 50, 0)\<close> when there is no such cell; on a grid whose cells
  all hold \<open>e\<close> that is cell \<open>(5, 5)\<close>.
\<close>

theorem findSpawnPoint_first_flat:
  assumes "is_grid hm w h" and "11 \<le> w" and "11 \<le> h"
  shows "findSpawnPoint hm spacing ch cr =
           Some (case List.find (flat_cell hm) (scan_order w h) of
                   Some c \<Rightarrow> spawn_at hm spacing ch cr c
                 | None \<Rightarrow> Vec3 0 50 0)
     \<and> ((\<forall>r<h. \<forall>c<w. hm ! r ! c = e) \<longrightarrow>
          findSpawnPoint hm spacing ch cr =
            Some (Vec3 (5 * spacing) (e + ch / 2 + cr + 0.1) (5 * spacing)))"
proof -
  have h0: "0 < h" using assms(3) by simp
  have f: "findSpawnPoint hm spacing ch cr = Some (first_flat_spawn hm w h spacing ch cr)"
    by (rule findSpawnPoint_find[OF assms(1) h0])
  have "findSpawnPoint hm spacing ch cr =
           Some (case List.find (flat_cell hm) (scan_order w h) of
                   Some c \<Rightarrow> spawn_at hm spacing ch cr c
                 | None \<Rightarrow> Vec3 0 50 0)"
    using f by (simp add: first_flat_spawn_def)
  moreover have "(\<forall>r<h. \<forall>c<w. hm ! r ! c = e) \<longrightarrow>
          findSpawnPoint hm spacing ch cr =
            Some (Vec3 (5 * spacing) (e + ch / 2 + cr + 0.1) (5 * spacing))"
    using f first_flat_spawn_flat_grid[OF assms(2,3), of hm e spacing ch cr] by simp
  ultimately show ?thesis by blast
qed

theorem findSpawnPoint_first_flat_witness:
  "is_grid (slope_grid 0 11) 11 11 \<and> (11::nat) \<le> 11
   \<and> findSpawnPoint (slope_grid 0 11) 10 4 1 = Some (Vec3 50 (31 / 10) 50)
   \<and> is_grid (slope_grid 2 11) 11 11
   \<and> findSpawnPoint (slope_grid 2 11) 10 4 1 = Some (Vec3 0 50 0)"
proof -
  have g0: "is_grid (slope_grid 0 11) 11 11" and g2: "is_grid (slope_grid 2 11) 11 11"
    by (rule is_grid_slope)+
  have n: "(11::nat) \<le> 11" by simp
  have flat: "\<forall>r<11. \<forall>c<11. slope_grid 0 11 ! r ! c = 0"
    by (simp add: slope_grid_cell)
  have a: "findSpawnPoint (slope_grid 0 11) 10 4 1 = Some (Vec3 50 (31 / 10) 50)"
    using conjunct2[OF findSpawnPoint_first_flat[OF g0 n n, of 10 4 1 0]] flat by simp
  have so: "scan_order 11 11 = [(5, 5)]" by (simp add: scan_order_def)
  have steep: "\<not> flat_cell (slope_grid 2 11) (5, 5)"
    by (simp add: flat_cell_def slope_grid_cell)
  have b: "findSpawnPoint (slope_grid 2 11) 10 4 1 = Some (Vec3 0 50 0)"
    using conjunct1[OF findSpawnPoint_first_flat[OF g2 n n, of 10 4 1 0]] steep
    unfolding so by simp
  show ?thesis using g0 g2 n a b by blast
qed

end
